theory Spec2Isabelle
  imports Complex_Main "HOL-Library.Word" "HOL-Library.Product_Lexorder"
begin

section \<open>Python values the program handles\<close>

text \<open>
  The exceptions that operations on a page, an image or a file can raise. Every
  handler of \<^verbatim>\<open>findColorPages.py\<close> is either a bare \<^verbatim>\<open>except:\<close> or
  \<^verbatim>\<open>except Exception\<close>, so the handlers do not tell them apart; all of them are
  subclasses of \<^verbatim>\<open>Exception\<close>.
\<close>

datatype exn =
    AttributeError | TypeError | KeyError | ValueError | IndexError
  | UnboundLocalError | PdfReadError | ImageError | OSError

subsection \<open>Characters\<close>

text \<open>
  A content stream is decoded with \<^verbatim>\<open>latin-1\<close>, one character per byte, so its
  characters are exactly the 256 values of \<^typ>\<open>char\<close>. The text of a page is modelled
  over the same characters (code points below 256). On them, the classes of Python's
  \<^verbatim>\<open>re\<close> for \<^verbatim>\<open>str\<close> patterns are: \<^verbatim>\<open>\d\<close> and \<^verbatim>\<open>[0-9]\<close> the ten ASCII digits,
  \<^verbatim>\<open>\s\<close> the characters for which \<^verbatim>\<open>str.isspace\<close> holds (the same ones
  \<^verbatim>\<open>str.strip\<close> removes), \<^verbatim>\<open>\w\<close> the alphanumeric characters and the underscore.
\<close>

definition code :: "char \<Rightarrow> nat" where
  "code c = of_char c"

definition is_digit :: "char \<Rightarrow> bool" where
  "is_digit c = (48 \<le> code c \<and> code c \<le> 57)"

definition is_space :: "char \<Rightarrow> bool" where
  "is_space c = ((9 \<le> code c \<and> code c \<le> 13) \<or> (28 \<le> code c \<and> code c \<le> 32)
                  \<or> code c = 133 \<or> code c = 160)"

definition is_word :: "char \<Rightarrow> bool" where
  "is_word c = (is_digit c \<or> (65 \<le> code c \<and> code c \<le> 90) \<or> code c = 95
                 \<or> (97 \<le> code c \<and> code c \<le> 122)
                 \<or> code c \<in> {170, 178, 179, 181, 185, 186, 188, 189, 190}
                 \<or> (192 \<le> code c \<and> code c \<le> 214) \<or> (216 \<le> code c \<and> code c \<le> 246)
                 \<or> 248 \<le> code c)"

definition ascii_lower :: "char \<Rightarrow> char" where
  "ascii_lower c = (if 65 \<le> code c \<and> code c \<le> 90 then char_of (code c + 32) else c)"

subsection \<open>The regular expressions of the program\<close>

text \<open>
  The patterns of the program are sequences of: a word boundary \<^verbatim>\<open>\b\<close>, one
  character of a class, a greedy \<^verbatim>\<open>?\<close>, \<^verbatim>\<open>*\<close> or \<^verbatim>\<open>+\<close> over a class, and the
  parentheses of a capturing group. \<open>IgnoreCase\<close> is a literal letter under
  \<^verbatim>\<open>re.IGNORECASE\<close>.
\<close>

datatype cclass = Digit | Space | Lit char | IgnoreCase char | NotNewline

fun in_class :: "cclass \<Rightarrow> char \<Rightarrow> bool" where
  "in_class Digit c = is_digit c"
| "in_class Space c = is_space c"
| "in_class (Lit x) c = (c = x)"
| "in_class (IgnoreCase x) c = (ascii_lower c = ascii_lower x)"
| "in_class NotNewline c = (code c \<noteq> 10 \<and> code c \<noteq> 13)"

datatype atom = WordBoundary | One cclass | Opt cclass | Star cclass | Plus cclass
  | GroupOpen | GroupClose

text \<open>
  The state of a match attempt: the groups closed so far, in order, and the position
  where the group now open started.
\<close>

type_synonym captures = "string list \<times> nat"

definition at_boundary :: "string \<Rightarrow> nat \<Rightarrow> bool" where
  "at_boundary txt pos =
     ((0 < pos \<and> pos \<le> length txt \<and> is_word (txt ! (pos - 1)))
        \<noteq> (pos < length txt \<and> is_word (txt ! pos)))"

definition run :: "cclass \<Rightarrow> string \<Rightarrow> nat \<Rightarrow> nat" where
  "run c txt pos = length (takeWhile (in_class c) (drop pos txt))"

text \<open>
  Backtracking over a greedy quantifier: the continuation \<open>k\<close> is tried with
  \<open>lo + d\<close> repetitions first, then with one fewer, down to \<open>lo\<close>.
\<close>

primrec first_down :: "(nat \<Rightarrow> 'a option) \<Rightarrow> nat \<Rightarrow> nat \<Rightarrow> 'a option" where
  "first_down k lo 0 = k lo"
| "first_down k lo (Suc d) =
     (case k (lo + Suc d) of Some r \<Rightarrow> Some r | None \<Rightarrow> first_down k lo d)"

text \<open>
  \<open>match_at p txt pos cs\<close> is the match of pattern \<open>p\<close> that \<^verbatim>\<open>re\<close> finds
  starting at position \<open>pos\<close> of \<open>txt\<close>: the end position and the captured groups,
  or \<open>None\<close> when the pattern does not match there.
\<close>

primrec match_at :: "atom list \<Rightarrow> string \<Rightarrow> nat \<Rightarrow> captures \<Rightarrow> (nat \<times> string list) option" where
  "match_at [] txt pos cs = Some (pos, fst cs)"
| "match_at (a # as) txt pos cs =
     (case a of
        WordBoundary \<Rightarrow> if at_boundary txt pos then match_at as txt pos cs else None
      | One c \<Rightarrow>
          if pos < length txt \<and> in_class c (txt ! pos) then match_at as txt (pos + 1) cs
          else None
      | Opt c \<Rightarrow>
          first_down (\<lambda>n. match_at as txt (pos + n) cs) 0 (min 1 (run c txt pos))
      | Star c \<Rightarrow>
          first_down (\<lambda>n. match_at as txt (pos + n) cs) 0 (run c txt pos)
      | Plus c \<Rightarrow>
          if run c txt pos = 0 then None
          else first_down (\<lambda>n. match_at as txt (pos + n) cs) 1 (run c txt pos - 1)
      | GroupOpen \<Rightarrow> match_at as txt pos (fst cs, pos)
      | GroupClose \<Rightarrow>
          match_at as txt pos (fst cs @ [take (pos - snd cs) (drop (snd cs) txt)], snd cs))"

text \<open>
  \<^verbatim>\<open>re.findall\<close>: the matches are searched from left to right and do not overlap;
  after a match the search goes on at its end (one further when the match is empty).
  The result holds the groups of each match.
\<close>

function findall_from :: "atom list \<Rightarrow> string \<Rightarrow> nat \<Rightarrow> string list list" where
  "findall_from p txt pos =
     (if length txt < pos then []
      else case match_at p txt pos ([], pos) of
             None \<Rightarrow> findall_from p txt (pos + 1)
           | Some (e, gs) \<Rightarrow> gs # findall_from p txt (if pos < e then e else pos + 1))"
  by pat_completeness auto
termination
  by (relation "measure (\<lambda>(p, txt, pos). length txt + 1 - pos)") auto

text \<open>
  What \<^verbatim>\<open>re.findall\<close> returns for one match: the string of the group when the pattern
  has one group, the tuple of the groups when it has several.
\<close>

datatype pymatch = Str string | Tuple "string list"

definition findall :: "atom list \<Rightarrow> string \<Rightarrow> pymatch list" where
  "findall p txt =
     map (\<lambda>gs. case gs of [g] \<Rightarrow> Str g | _ \<Rightarrow> Tuple gs) (findall_from p txt 0)"

text \<open>\<^verbatim>\<open>len(match)\<close> and \<^verbatim>\<open>match[i]\<close>, on a tuple of groups and on a string.\<close>

fun match_len :: "pymatch \<Rightarrow> nat" where
  "match_len (Str s) = length s"
| "match_len (Tuple gs) = length gs"

fun match_item :: "pymatch \<Rightarrow> nat \<Rightarrow> exn + string" where
  "match_item (Str s) i = (if i < length s then Inr [s ! i] else Inl IndexError)"
| "match_item (Tuple gs) i = (if i < length gs then Inr (gs ! i) else Inl IndexError)"

section \<open>Figure extraction\<close>

text \<open>
  \<^verbatim>\<open>figure_pattern = r'Figure\s+(\d+)-(\d+)\.?\s*([^\n\r]*)'\<close>, used with
  \<^verbatim>\<open>re.IGNORECASE\<close>.
\<close>

definition figure_pattern :: "atom list" where
  "figure_pattern =
     map (\<lambda>c. One (IgnoreCase c)) ''Figure'' @
     [Plus Space, GroupOpen, Plus Digit, GroupClose, One (Lit (CHR ''-'')),
      GroupOpen, Plus Digit, GroupClose, Opt (Lit (CHR ''.'')), Star Space,
      GroupOpen, Star NotNewline, GroupClose]"

text \<open>\<^verbatim>\<open>caption.strip()\<close> and \<^verbatim>\<open>caption.rstrip('.')\<close>.\<close>

definition strip :: "string \<Rightarrow> string" where
  "strip s = rev (dropWhile is_space (rev (dropWhile is_space s)))"

definition rstrip_dot :: "string \<Rightarrow> string" where
  "rstrip_dot s = rev (dropWhile (\<lambda>c. c = CHR ''.'') (rev s))"


section \<open>Pages\<close>

text \<open>
  A page is modelled by what the operations of the program observe of it; each
  operation of the libraries that can raise has its exception as a value.

  \<open>contents\<close>: the entry \<^verbatim>\<open>/Contents\<close> of the page. A stream object has
  \<^verbatim>\<open>get_data\<close>, which returns the bytes or raises; an array is a list whose items
  have \<^verbatim>\<open>get_data\<close> or not; \<open>ContentOther\<close> is an object that is neither.
\<close>

datatype array_item = StreamItem "exn + string" | OtherItem

datatype contents =
    NoContents
  | ContentsError exn
  | ContentStream "exn + string"
  | ContentArray "array_item list"
  | ContentOther

text \<open>
  The value of \<^verbatim>\<open>obj.get('/ColorSpace')\<close>: absent, a list given by the \<^verbatim>\<open>str()\<close>
  of its items, or another object given by its \<^verbatim>\<open>str()\<close> (a name is true when it is
  not empty).
\<close>

datatype colorspace = NoColorSpace | CsName string | CsArray "string list"

text \<open>
  A decoded image in mode \<^verbatim>\<open>RGB\<close> as the array \<^verbatim>\<open>np.array(img)\<close>: its shape is
  \<open>(shape0, shape1, 3)\<close> and its entries are \<^verbatim>\<open>uint8\<close>. The test
  \<^verbatim>\<open>len(img_array.shape) == 3 and img_array.shape[2] >= 3\<close> holds for every such array.
\<close>

record pixel =
  red :: "8 word"
  green :: "8 word"
  blue :: "8 word"

record raster =
  shape0 :: nat
  shape1 :: nat
  px :: "nat \<Rightarrow> nat \<Rightarrow> pixel"

text \<open>
  What lines 93 to 105 make of the payload of an image: an exception
  (\<^verbatim>\<open>get_data\<close>, \<^verbatim>\<open>Image.open\<close>, \<^verbatim>\<open>convert\<close> or \<^verbatim>\<open>np.array\<close> raised), no data,
  an image whose mode after conversion is not \<^verbatim>\<open>RGB\<close>, or the array.
\<close>

datatype decoded = DecodeFails exn | NoData | OtherMode | RGB raster

record image =
  width :: int
  height :: int
  colorspace :: colorspace
  decoded :: decoded

text \<open>
  One entry of the \<^verbatim>\<open>/XObject\<close> dictionary: \<open>Unreadable\<close> when
  \<^verbatim>\<open>xObject[obj_name]\<close>, \<^verbatim>\<open>get_object()\<close> or \<^verbatim>\<open>obj.get('/Subtype')\<close> raises,
  \<open>NotImage\<close> when the subtype is not \<^verbatim>\<open>/Image\<close>.
\<close>

datatype xobject = Unreadable exn | NotImage | ImageXObject image

text \<open>
  The resources of the page: \<open>ResourcesError\<close> when \<^verbatim>\<open>page.get('/Resources', {})\<close>
  or the test \<^verbatim>\<open>'/XObject' in resources\<close> raises, \<open>XObjectError\<close> when reading or
  iterating the \<^verbatim>\<open>/XObject\<close> dictionary raises.
\<close>

datatype resources =
    ResourcesError exn
  | NoXObject
  | XObjectError exn
  | XObjects "xobject list"

record page =
  has_extract_text :: bool
  extract_text :: "exn + string option"
  contents :: contents
  resources :: resources

subsection \<open>extract_figure_info\<close>

text \<open>
  The loop over the matches (lines 191 to 199), with the list \<open>figures\<close> built so
  far; unpacking a match that is not a triple raises.
\<close>

fun figure_loop :: "(string \<times> string) list \<Rightarrow> pymatch list \<Rightarrow> exn + (string \<times> string) list" where
  "figure_loop figures [] = Inr figures"
| "figure_loop figures (Tuple [chapter_num, image_num, caption] # ms) =
     (let caption = strip caption in
      if caption \<noteq> [] then
        figure_loop (figures @ [(chapter_num @ ''-'' @ image_num, rstrip_dot caption)]) ms
      else figure_loop figures ms)"
| "figure_loop figures (m # ms) = Inl ValueError"

text \<open>
  The body of the \<^verbatim>\<open>try\<close> block. Before the loop \<open>figures\<close> is empty, and the
  loop does not raise on the matches of \<open>figure_pattern\<close>, so the handler's
  \<^verbatim>\<open>return figures\<close> returns the empty list.
\<close>

definition extract_figure_info_try :: "page \<Rightarrow> exn + (string \<times> string) list" where
  "extract_figure_info_try page =
     (if \<not> has_extract_text page then Inl AttributeError
      else case extract_text page of
             Inl e \<Rightarrow> Inl e
           | Inr None \<Rightarrow> Inr []
           | Inr (Some text) \<Rightarrow>
               if text = [] then Inr []
               else figure_loop [] (findall figure_pattern text))"

definition extract_figure_info :: "page \<Rightarrow> (string \<times> string) list" where
  "extract_figure_info page =
     (case extract_figure_info_try page of Inl e \<Rightarrow> [] | Inr figures \<Rightarrow> figures)"

definition has_figure_pattern :: "page \<Rightarrow> bool" where
  "has_figure_pattern page = (0 < length (extract_figure_info page))"


section \<open>is_color_page\<close>

subsection \<open>The content stream (lines 23 to 55)\<close>

text \<open>
  \<^verbatim>\<open>float(s)\<close> on the strings the scanner passes to it, which consist of digits and
  dots: the string is accepted when it has at least one digit and at most one dot, and
  its value is the decimal it denotes, rounded to a double. The rounding \<open>rnd\<close> is a
  parameter; the doubles so obtained are finite or infinite, never NaN, so that
  \<^verbatim>\<open>==\<close> on them is equality.
\<close>

definition float_syntax :: "string \<Rightarrow> bool" where
  "float_syntax s =
     (list_all (\<lambda>c. is_digit c \<or> c = CHR ''.'') s \<and> list_ex is_digit s
      \<and> length (filter (\<lambda>c. c = CHR ''.'') s) \<le> 1)"

definition digits_value :: "string \<Rightarrow> nat" where
  "digits_value s = foldl (\<lambda>n c. 10 * n + (code c - 48)) 0 s"

definition decimal_value :: "string \<Rightarrow> rat" where
  "decimal_value s =
     of_nat (digits_value (filter is_digit s))
       / 10 ^ (if CHR ''.'' \<in> set s then length (takeWhile is_digit (rev s)) else 0)"

text \<open>Sequencing of two steps that can raise.\<close>

definition and_then :: "exn + 'a \<Rightarrow> ('a \<Rightarrow> exn + 'b) \<Rightarrow> exn + 'b" where
  "and_then x f = (case x of Inl e \<Rightarrow> Inl e | Inr v \<Rightarrow> f v)"

definition py_float :: "(rat \<Rightarrow> 'f) \<Rightarrow> string \<Rightarrow> exn + 'f" where
  "py_float rnd s = (if float_syntax s then Inr (rnd (decimal_value s)) else Inl ValueError)"

text \<open>The operand \<^verbatim>\<open>([0-9]*\.?[0-9]+)\<close> and the four patterns of \<^verbatim>\<open>color_patterns\<close>.\<close>

definition number_group :: "atom list" where
  "number_group = [GroupOpen, Star Digit, Opt (Lit (CHR ''.'')), Plus Digit, GroupClose]"

definition rgb_pattern :: "string \<Rightarrow> atom list" where
  "rgb_pattern operator =
     WordBoundary # number_group @ [Plus Space] @ number_group @ [Plus Space]
       @ number_group @ [Plus Space] @ map (\<lambda>c. One (Lit c)) operator"

definition gray_pattern :: "string \<Rightarrow> atom list" where
  "gray_pattern operator =
     WordBoundary # number_group @ [Plus Space] @ map (\<lambda>c. One (Lit c)) operator"

definition color_patterns :: "atom list list" where
  "color_patterns =
     [rgb_pattern ''rg'', rgb_pattern ''RG'', gray_pattern ''g'', gray_pattern ''G'']"

text \<open>
  Lines 25 to 32: the text of the content stream. For an object that has no
  \<^verbatim>\<open>get_data\<close> and is not a list, \<^verbatim>\<open>content_data\<close> is never assigned and its first
  use raises.
\<close>

fun concat_items :: "string \<Rightarrow> array_item list \<Rightarrow> exn + string" where
  "concat_items acc [] = Inr acc"
| "concat_items acc (StreamItem (Inl e) # cs) = Inl e"
| "concat_items acc (StreamItem (Inr d) # cs) = concat_items (acc @ d) cs"
| "concat_items acc (OtherItem # cs) = concat_items acc cs"

fun content_data :: "contents \<Rightarrow> exn + string" where
  "content_data NoContents = Inl KeyError"
| "content_data (ContentsError e) = Inl e"
| "content_data (ContentStream d) = d"
| "content_data (ContentArray cs) = concat_items [] cs"
| "content_data ContentOther = Inl UnboundLocalError"

text \<open>
  Lines 44 to 53: the loop over the matches of one pattern. \<open>Inr True\<close> is the
  \<^verbatim>\<open>return True\<close> of line 48, \<open>Inr False\<close> the end of the loop, \<open>Inl e\<close> an
  exception. The branch of line 52 has no effect.
\<close>

fun check_matches :: "(rat \<Rightarrow> 'f) \<Rightarrow> pymatch list \<Rightarrow> exn + bool" where
  "check_matches rnd [] = Inr False"
| "check_matches rnd (m # ms) =
     (if match_len m = 3 then
        (case and_then (match_item m 0) (py_float rnd) of
           Inl e \<Rightarrow> Inl e
         | Inr r \<Rightarrow>
        (case and_then (match_item m 1) (py_float rnd) of
           Inl e \<Rightarrow> Inl e
         | Inr g \<Rightarrow>
        (case and_then (match_item m 2) (py_float rnd) of
           Inl e \<Rightarrow> Inl e
         | Inr b \<Rightarrow>
             if \<not> (r = g \<and> g = b) then Inr True else check_matches rnd ms)))
      else if match_len m = 1 then
        (case and_then (match_item m 0) (py_float rnd) of
           Inl e \<Rightarrow> Inl e
         | Inr gray_val \<Rightarrow> check_matches rnd ms)
      else check_matches rnd ms)"

text \<open>Lines 42 to 53: the loop over the patterns.\<close>

fun scan_patterns :: "(rat \<Rightarrow> 'f) \<Rightarrow> string \<Rightarrow> atom list list \<Rightarrow> exn + bool" where
  "scan_patterns rnd d [] = Inr False"
| "scan_patterns rnd d (pattern # ps) =
     (case check_matches rnd (findall pattern d) of
        Inl e \<Rightarrow> Inl e
      | Inr True \<Rightarrow> Inr True
      | Inr False \<Rightarrow> scan_patterns rnd d ps)"

text \<open>
  How a block of statements ends: it runs to its end, it returns a value from the
  function, or it raises.
\<close>

datatype control = Continue | Return bool | Raise exn

text \<open>
  Lines 23 to 55. The bare \<^verbatim>\<open>except: pass\<close> of line 54 absorbs every exception of the
  inner block.
\<close>

definition scan_content :: "(rat \<Rightarrow> 'f) \<Rightarrow> page \<Rightarrow> control" where
  "scan_content rnd page =
     (if has_extract_text page \<and> contents page \<noteq> NoContents then
        (case and_then (content_data (contents page))
                (\<lambda>d. scan_patterns rnd d color_patterns) of
           Inl e \<Rightarrow> Continue
         | Inr True \<Rightarrow> Return True
         | Inr False \<Rightarrow> Continue)
      else Continue)"


subsection \<open>The pixels of an image (lines 106 to 149)\<close>

text \<open>
  The entries of the array are \<^verbatim>\<open>uint8\<close>; \<^verbatim>\<open>astype(int)\<close> and the products with
  \<^verbatim>\<open>0.8\<close> and \<^verbatim>\<open>1.2\<close> leave that range, so the comparisons are made on the
  numbers the entries denote. The products \<^verbatim>\<open>g * 0.8\<close> and \<^verbatim>\<open>b * 1.2\<close> are doubles;
  for the 256 values of an entry, comparing them with an entry gives the same result as
  comparing the exact products, which is what the model does. The thresholds are an
  integer and a fraction, given by the numbers the caller writes.
\<close>

definition chan :: "8 word \<Rightarrow> int" where
  "chan w = uint w"

definition pixels :: "raster \<Rightarrow> pixel list" where
  "pixels a = concat (map (\<lambda>i. map (\<lambda>j. px a i j) [0..<shape1 a]) [0..<shape0 a])"

text \<open>\<^verbatim>\<open>np.sum(mask)\<close>: the number of pixels of the array where the mask holds.\<close>

definition count_pixels :: "(pixel \<Rightarrow> bool) \<Rightarrow> raster \<Rightarrow> nat" where
  "count_pixels m a = length (filter m (pixels a))"

definition total_pixels :: "raster \<Rightarrow> nat" where
  "total_pixels a = shape0 a * shape1 a"

text \<open>
  \<^verbatim>\<open>n / total_pixels > threshold\<close>, where \<open>n\<close> is a numpy integer: dividing by zero
  does not raise, it gives \<open>nan\<close> for \<open>0 / 0\<close> (every comparison with it is false) and
  \<open>inf\<close> otherwise.
\<close>

definition fraction_exceeds :: "nat \<Rightarrow> nat \<Rightarrow> rat \<Rightarrow> bool" where
  "fraction_exceeds n t threshold =
     (if t = 0 then n \<noteq> 0 else threshold < of_nat n / of_nat t)"

text \<open>
  The double nearest to a rational, ties to the even significand, with the subnormal
  range: \<open>floor_log2 q\<close> is the exponent of \<open>q > 0\<close>, and a double of exponent
  \<open>e\<close> is a multiple of \<open>2 ^ (e - 52)\<close>, the exponent being at least \<open>-1022\<close>.
  (Beyond the largest double the code has an infinity; the comparison of a fraction of
  pixels with a threshold has the same result there.)
\<close>

function bit_length :: "int \<Rightarrow> nat" where
  "bit_length n = (if n \<le> 0 then 0 else Suc (bit_length (n div 2)))"
  by pat_completeness auto
termination
  by (relation "measure nat") auto

definition floor_log2 :: "rat \<Rightarrow> int" where
  "floor_log2 q =
     (let (a, b) = quotient_of q;
          d = int (bit_length a) - int (bit_length b)
      in if 2 powi d \<le> q then d else d - 1)"

definition round_half_even :: "rat \<Rightarrow> int" where
  "round_half_even x =
     (let f = \<lfloor>x\<rfloor>; d = x - of_int f
      in if d < 1 / 2 then f else if 1 / 2 < d then f + 1 else if even f then f else f + 1)"

definition round_double :: "rat \<Rightarrow> rat" where
  "round_double q =
     (if q = 0 then 0
      else let e = max (floor_log2 \<bar>q\<bar>) (- 1022); u = 2 powi (e - 52)
           in of_int (round_half_even (q / u)) * u)"

text \<open>
  \<^verbatim>\<open>sample_threshold * 0.1\<close>: the product of two doubles, which is rounded (the
  product with \<^verbatim>\<open>0.5\<close> is not), and \<^verbatim>\<open>n / total_pixels > threshold\<close> on the
  doubles, for the tests that use that product.
\<close>

definition tenth :: "rat \<Rightarrow> rat" where
  "tenth sample_threshold =
     round_double (round_double sample_threshold * round_double (1 / 10))"

definition double_fraction_exceeds :: "nat \<Rightarrow> nat \<Rightarrow> rat \<Rightarrow> bool" where
  "double_fraction_exceeds n t threshold =
     (if t = 0 then n \<noteq> 0 else threshold < round_double (of_nat n / of_nat t))"

text \<open>\<^verbatim>\<open>img_array[::step, ::step]\<close>\<close>

definition stride :: "nat \<Rightarrow> raster \<Rightarrow> raster" where
  "stride step a =
     \<lparr>shape0 = (shape0 a + step - 1) div step, shape1 = (shape1 a + step - 1) div step,
      px = (\<lambda>i j. px a (i * step) (j * step))\<rparr>"

text \<open>Lines 108 to 110: large images are sampled.\<close>

definition downsample :: "raster \<Rightarrow> raster" where
  "downsample a =
     (if shape0 a * shape1 a > 1000000 then
        stride (max 1 (min (shape0 a) (shape1 a) div 100)) a
      else a)"

text \<open>The four masks of lines 116 to 145.\<close>

definition color_mask :: "int \<Rightarrow> pixel \<Rightarrow> bool" where
  "color_mask color_threshold p =
     (\<bar>chan (red p) - chan (green p)\<bar> > color_threshold
      \<or> \<bar>chan (red p) - chan (blue p)\<bar> > color_threshold
      \<or> \<bar>chan (green p) - chan (blue p)\<bar> > color_threshold)"

definition is_grayscale :: "pixel \<Rightarrow> bool" where
  "is_grayscale p = (red p = green p \<and> green p = blue p)"

definition yellow_mask :: "pixel \<Rightarrow> bool" where
  "yellow_mask p =
     ((of_int (chan (red p)) :: rat) > of_int (chan (green p)) * (8 / 10)
      \<and> (of_int (chan (green p)) :: rat) > of_int (chan (blue p)) * (12 / 10)
      \<and> chan (red p) > 100)"

definition blue_mask :: "pixel \<Rightarrow> bool" where
  "blue_mask p =
     ((of_int (chan (blue p)) :: rat) > of_int (chan (red p)) * (12 / 10)
      \<and> (of_int (chan (blue p)) :: rat) > of_int (chan (green p)) * (12 / 10)
      \<and> chan (blue p) > 100)"

text \<open>
  The four tests, on the array after sampling. For the first two the double quotient is
  compared with the double of \<open>sample_threshold\<close>, or its half; for a threshold
  written as a decimal this agrees with the exact comparison, which the model makes.
\<close>

definition channel_difference_test :: "int \<Rightarrow> rat \<Rightarrow> raster \<Rightarrow> bool" where
  "channel_difference_test color_threshold sample_threshold a =
     fraction_exceeds (count_pixels (color_mask color_threshold) a) (total_pixels a)
       sample_threshold"

definition non_grayscale_test :: "rat \<Rightarrow> raster \<Rightarrow> bool" where
  "non_grayscale_test sample_threshold a =
     fraction_exceeds (count_pixels (\<lambda>p. \<not> is_grayscale p) a) (total_pixels a)
       (sample_threshold * (5 / 10))"

definition yellow_test :: "rat \<Rightarrow> raster \<Rightarrow> bool" where
  "yellow_test sample_threshold a =
     double_fraction_exceeds (count_pixels yellow_mask a) (total_pixels a)
       (tenth sample_threshold)"

definition blue_test :: "rat \<Rightarrow> raster \<Rightarrow> bool" where
  "blue_test sample_threshold a =
     double_fraction_exceeds (count_pixels blue_mask a) (total_pixels a)
       (tenth sample_threshold)"

text \<open>
  Lines 106 to 149 on a decoded array: \<open>True\<close> when one of the four
  \<^verbatim>\<open>return True\<close> is reached, in the order of the source.
\<close>

definition analyze_array :: "int \<Rightarrow> rat \<Rightarrow> raster \<Rightarrow> bool" where
  "analyze_array color_threshold sample_threshold img_array =
     (let a = downsample img_array in
      if channel_difference_test color_threshold sample_threshold a then True
      else if non_grayscale_test sample_threshold a then True
      else if yellow_test sample_threshold a then True
      else if blue_test sample_threshold a then True
      else False)"

subsection \<open>The images of a page (lines 58 to 160)\<close>

text \<open>\<^verbatim>\<open>sub in s\<close> on strings.\<close>

definition contains :: "string \<Rightarrow> string \<Rightarrow> bool" where
  "contains sub s = list_ex (\<lambda>i. take (length sub) (drop i s) = sub) [0..<Suc (length s)]"

text \<open>
  Lines 80 to 89: whether the declared colorspace sets \<^verbatim>\<open>has_color\<close>.
\<close>

definition cs_name :: "colorspace \<Rightarrow> string option" where
  "cs_name cs =
     (case cs of
        NoColorSpace \<Rightarrow> None
      | CsName s \<Rightarrow> if s = [] then None else Some s
      | CsArray xs \<Rightarrow> (case xs of [] \<Rightarrow> None | x # _ \<Rightarrow> Some x))"

definition declares_color :: "colorspace \<Rightarrow> bool" where
  "declares_color cs =
     (case cs_name cs of
        None \<Rightarrow> False
      | Some name \<Rightarrow> list_ex (\<lambda>c. contains c name) [''RGB'', ''Lab'', ''DeviceRGB''])"

text \<open>
  Lines 92 to 149, the innermost \<^verbatim>\<open>try\<close> block: \<open>Inl e\<close> when it raises,
  \<open>Inr True\<close> when it returns \<open>True\<close>, \<open>Inr False\<close> when it runs to its end.
\<close>

definition pixel_analysis :: "int \<Rightarrow> rat \<Rightarrow> image \<Rightarrow> exn + bool" where
  "pixel_analysis color_threshold sample_threshold obj =
     (case decoded obj of
        DecodeFails e \<Rightarrow> Inl e
      | NoData \<Rightarrow> Inr False
      | OtherMode \<Rightarrow> Inr False
      | RGB img_array \<Rightarrow> Inr (analyze_array color_threshold sample_threshold img_array))"

text \<open>
  Lines 71 to 158, the body of the loop for an image, from the value of
  \<^verbatim>\<open>has_color\<close> before it: how it ends, and the value of \<^verbatim>\<open>has_color\<close> after it.
  The statements of lines 73 to 89 do not raise on a dictionary, so the handler of
  line 157 is not entered.
\<close>

definition check_image :: "int \<Rightarrow> rat \<Rightarrow> bool \<Rightarrow> image \<Rightarrow> control \<times> bool" where
  "check_image color_threshold sample_threshold has_color obj =
     (if width obj = 0 \<or> height obj = 0 then (Continue, has_color)
      else
        let has_color = (if declares_color (colorspace obj) then True else has_color) in
        case pixel_analysis color_threshold sample_threshold obj of
          Inr True \<Rightarrow> (Return True, has_color)
        | Inr False \<Rightarrow> (Continue, has_color)
        | Inl img_error \<Rightarrow>
            if has_color then (Return True, has_color) else (Continue, has_color))"

text \<open>
  Lines 65 to 158, the loop over the entries. An exception of lines 66 to 70 is outside
  the \<^verbatim>\<open>try\<close> of line 71: it leaves the loop.
\<close>

fun scan_xobjects :: "int \<Rightarrow> rat \<Rightarrow> bool \<Rightarrow> xobject list \<Rightarrow> control \<times> bool" where
  "scan_xobjects ct st has_color [] = (Continue, has_color)"
| "scan_xobjects ct st has_color (Unreadable e # rest) = (Raise e, has_color)"
| "scan_xobjects ct st has_color (NotImage # rest) = scan_xobjects ct st has_color rest"
| "scan_xobjects ct st has_color (ImageXObject obj # rest) =
     (case check_image ct st has_color obj of
        (Continue, has_color') \<Rightarrow> scan_xobjects ct st has_color' rest
      | (Return b, has_color') \<Rightarrow> (Return b, has_color')
      | (Raise e, has_color') \<Rightarrow> (Raise e, has_color'))"

text \<open>
  Lines 58 to 160. The handler of line 159 (\<^verbatim>\<open>except Exception as resource_error:
  pass\<close>) absorbs the exceptions of lines 61 to 70.
\<close>

definition scan_resources :: "int \<Rightarrow> rat \<Rightarrow> bool \<Rightarrow> page \<Rightarrow> control \<times> bool" where
  "scan_resources ct st has_color page =
     (case resources page of
        ResourcesError e \<Rightarrow> (Raise e, has_color)
      | NoXObject \<Rightarrow> (Continue, has_color)
      | XObjectError e \<Rightarrow> (Continue, has_color)
      | XObjects xObject \<Rightarrow>
          (case scan_xobjects ct st has_color xObject of
             (Raise resource_error, has_color') \<Rightarrow> (Continue, has_color')
           | r \<Rightarrow> r))"

subsection \<open>The function\<close>

text \<open>Lines 21 to 160, the outer \<^verbatim>\<open>try\<close> block.\<close>

definition is_color_page_try ::
  "(rat \<Rightarrow> 'f) \<Rightarrow> page \<Rightarrow> int \<Rightarrow> rat \<Rightarrow> bool \<Rightarrow> control \<times> bool" where
  "is_color_page_try rnd page color_threshold sample_threshold has_color =
     (case scan_content rnd page of
        Return b \<Rightarrow> (Return b, has_color)
      | Raise e \<Rightarrow> (Raise e, has_color)
      | Continue \<Rightarrow> scan_resources color_threshold sample_threshold has_color page)"

text \<open>
  \<^verbatim>\<open>is_color_page(page, color_threshold, sample_threshold)\<close>: \<open>Inr b\<close> when it
  returns \<open>b\<close>, \<open>Inl e\<close> when an exception leaves it. The handler of line 162 absorbs
  what the \<^verbatim>\<open>try\<close> block raises, and line 165 returns \<^verbatim>\<open>has_color\<close>.
\<close>

definition is_color_page :: "(rat \<Rightarrow> 'f) \<Rightarrow> page \<Rightarrow> int \<Rightarrow> rat \<Rightarrow> exn + bool" where
  "is_color_page rnd page color_threshold sample_threshold =
     (case is_color_page_try rnd page color_threshold sample_threshold False of
        (Return b, has_color) \<Rightarrow> Inr b
      | (Raise e, has_color) \<Rightarrow> Inr has_color
      | (Continue, has_color) \<Rightarrow> Inr has_color)"


text \<open>
  The value the function returns for an outcome of lines 58 to 160: what the images
  returned, or \<^verbatim>\<open>has_color\<close>.
\<close>

definition verdict :: "control \<times> bool \<Rightarrow> bool" where
  "verdict r = (case r of (Return b, h) \<Rightarrow> b | (Raise e, h) \<Rightarrow> h | (Continue, h) \<Rightarrow> h)"

section \<open>find_figure_pages\<close>

text \<open>The dictionary appended to \<^verbatim>\<open>all_figures\<close> (lines 253 to 258).\<close>

record figure =
  figure_number :: string
  caption :: string
  pdf_page :: int
  book_page :: int

text \<open>
  The file at \<^verbatim>\<open>pdf_path\<close>: \<open>CannotOpen\<close> when \<^verbatim>\<open>open\<close>, \<^verbatim>\<open>PdfReader\<close> or
  \<^verbatim>\<open>len(pdf_reader.pages)\<close> raises; otherwise its pages in order, where reading
  \<^verbatim>\<open>pdf_reader.pages[page_num]\<close> can raise. The file at \<^verbatim>\<open>output_file\<close> can be
  opened for writing or not.
\<close>

datatype pdf_file = CannotOpen exn | Pdf "(exn + page) list"

datatype output_file = CannotWrite exn | Writable

text \<open>
  What is written to the output file: the numbers of the header, the figures of the
  detailed section in their order, and the figures of the front matter section (the
  section is written when the list is not empty).
\<close>

record report =
  rep_total_pages :: nat
  rep_page_offset :: int
  rep_total_figures :: nat
  rep_book_figures :: nat
  rep_front_matter_figures :: nat
  rep_detailed :: "figure list"
  rep_front_matter :: "figure list"

text \<open>
  Lines 242 to 267, the loop over the pages, with \<^verbatim>\<open>all_figures\<close> as built so far.
  (\<^verbatim>\<open>figure_pages\<close> is appended to and never read.)
\<close>

fun page_loop :: "int \<Rightarrow> nat \<Rightarrow> figure list \<Rightarrow> (exn + page) list \<Rightarrow> exn + figure list" where
  "page_loop page_offset page_num all_figures [] = Inr all_figures"
| "page_loop page_offset page_num all_figures (Inl e # rest) = Inl e"
| "page_loop page_offset page_num all_figures (Inr page # rest) =
     (let pdf_page_num = int page_num + 1;
          book_page_num = pdf_page_num - page_offset;
          figures_on_page = extract_figure_info page
      in page_loop page_offset (page_num + 1)
           (all_figures @
              map (\<lambda>(number, cap).
                     \<lparr>figure_number = number, caption = cap,
                      pdf_page = pdf_page_num, book_page = book_page_num\<rparr>)
                figures_on_page)
           rest)"

text \<open>Lines 270 and 271.\<close>

definition book_figures :: "figure list \<Rightarrow> figure list" where
  "book_figures all_figures = filter (\<lambda>fig. book_page fig > 0) all_figures"

definition front_matter_figures :: "figure list \<Rightarrow> figure list" where
  "front_matter_figures all_figures = filter (\<lambda>fig. book_page fig \<le> 0) all_figures"

text \<open>
  \<^verbatim>\<open>s.split('-')\<close>, and \<^verbatim>\<open>int(s)\<close> on the strings that reach it, which are made of
  digits; \<^verbatim>\<open>int\<close> raises on a string of more than 4300 digits (the default limit
  of Python 3.11 and later).
\<close>

fun split_on :: "char \<Rightarrow> string \<Rightarrow> string list" where
  "split_on sep [] = [[]]"
| "split_on sep (c # cs) =
     (if c = sep then [] # split_on sep cs
      else case split_on sep cs of
             [] \<Rightarrow> [[c]]
           | part # parts \<Rightarrow> (c # part) # parts)"

definition py_int :: "string \<Rightarrow> exn + int" where
  "py_int s =
     (if s \<noteq> [] \<and> list_all is_digit s \<and> length s \<le> 4300 then Inr (int (digits_value s))
      else Inl ValueError)"

text \<open>Lines 287 to 289, the key of the sort.\<close>

definition sort_key_fig :: "figure \<Rightarrow> exn + (int \<times> int)" where
  "sort_key_fig fig =
     (let parts = split_on (CHR ''-'') (figure_number fig) in
      and_then (py_int (parts ! 0)) (\<lambda>chapter.
        if length parts < 2 then Inl IndexError
        else and_then (py_int (parts ! 1)) (\<lambda>index. Inr (chapter, index))))"

text \<open>
  \<^verbatim>\<open>sorted(book_figures, key=sort_key)\<close>: the keys are computed first, one for each
  figure in order, and the sort is stable; the pairs are compared as Python compares
  tuples, by the first component and then by the second.
\<close>

fun with_keys :: "figure list \<Rightarrow> exn + ((int \<times> int) \<times> figure) list" where
  "with_keys [] = Inr []"
| "with_keys (fig # figs) =
     and_then (sort_key_fig fig) (\<lambda>k.
       and_then (with_keys figs) (\<lambda>rest. Inr ((k, fig) # rest)))"

definition sorted_figures :: "figure list \<Rightarrow> exn + figure list" where
  "sorted_figures figs =
     and_then (with_keys figs) (\<lambda>keyed. Inr (map snd (sort_key fst keyed)))"

text \<open>
  Lines 235 to 310, the \<^verbatim>\<open>try\<close> block: the value returned and the report written,
  or the exception raised.
\<close>

definition find_figure_pages_try ::
  "pdf_file \<Rightarrow> output_file \<Rightarrow> int \<Rightarrow> exn + (int list \<times> report)" where
  "find_figure_pages_try pdf out page_offset =
     (case pdf of
        CannotOpen e \<Rightarrow> Inl e
      | Pdf pages \<Rightarrow>
          and_then (page_loop page_offset 0 [] pages) (\<lambda>all_figures.
            case out of
              CannotWrite e \<Rightarrow> Inl e
            | Writable \<Rightarrow>
                and_then (sorted_figures (book_figures all_figures)) (\<lambda>sorted.
                  Inr (map book_page (book_figures all_figures),
                       \<lparr>rep_total_pages = length pages,
                        rep_page_offset = page_offset,
                        rep_total_figures = length all_figures,
                        rep_book_figures = length (book_figures all_figures),
                        rep_front_matter_figures = length (front_matter_figures all_figures),
                        rep_detailed = sorted,
                        rep_front_matter = front_matter_figures all_figures\<rparr>))))"

text \<open>
  \<^verbatim>\<open>find_figure_pages(pdf_path, output_file, page_offset)\<close>: the handler of line 312
  returns the empty list; the second component is the report when it was written in
  full.
\<close>

definition find_figure_pages ::
  "pdf_file \<Rightarrow> output_file \<Rightarrow> int \<Rightarrow> exn + (int list \<times> report option)" where
  "find_figure_pages pdf out page_offset =
     (case find_figure_pages_try pdf out page_offset of
        Inl e \<Rightarrow> Inr ([], None)
      | Inr (pages, rep) \<Rightarrow> Inr (pages, Some rep))"


section \<open>Inputs of the examples\<close>

definition text_page :: "string \<Rightarrow> page" where
  "text_page t =
     \<lparr>has_extract_text = True, extract_text = Inr (Some t),
      contents = NoContents, resources = NoXObject\<rparr>"

definition sample_text :: string where
  "sample_text = ''Figure 3-2. A sample diagram.'' @ [CHR 0x0A] @ ''Figure 3-2 continued''"

definition red_pixel :: pixel where
  "red_pixel = \<lparr>red = 255, green = 0, blue = 0\<rparr>"

definition gray_pixel :: pixel where
  "gray_pixel = \<lparr>red = 90, green = 90, blue = 90\<rparr>"

text \<open>A row of ten pixels, the first \<open>n\<close> of them red and the others gray.\<close>

definition row_of_ten :: "nat \<Rightarrow> raster" where
  "row_of_ten n =
     \<lparr>shape0 = 1, shape1 = 10, px = (\<lambda>i j. if j < n then red_pixel else gray_pixel)\<rparr>"

definition two_pages :: "(exn + page) list" where
  "two_pages = [Inr (text_page ''Figure 1-1. Overview''), Inr (text_page ''Figure 1-2. Detail'')]"

definition overview_figure :: figure where
  "overview_figure =
     \<lparr>figure_number = ''1-1'', caption = ''Overview'', pdf_page = 1, book_page = 0\<rparr>"

definition detail_figure :: figure where
  "detail_figure =
     \<lparr>figure_number = ''1-2'', caption = ''Detail'', pdf_page = 2, book_page = 1\<rparr>"

definition three_chapters :: pdf_file where
  "three_chapters =
     Pdf [Inr (text_page ''Figure 10-1. Last''), Inr (text_page ''Figure 2-10. Middle''),
          Inr (text_page ''Figure 2-9. First'')]"

definition three_chapters_report :: report where
  "three_chapters_report =
     \<lparr>rep_total_pages = 3, rep_page_offset = 0, rep_total_figures = 3,
      rep_book_figures = 3, rep_front_matter_figures = 0,
      rep_detailed =
        [\<lparr>figure_number = ''2-9'', caption = ''First'', pdf_page = 3, book_page = 3\<rparr>,
         \<lparr>figure_number = ''2-10'', caption = ''Middle'', pdf_page = 2, book_page = 2\<rparr>,
         \<lparr>figure_number = ''10-1'', caption = ''Last'', pdf_page = 1, book_page = 1\<rparr>],
      rep_front_matter = []\<rparr>"

text \<open>A rounding that keeps every decimal, for examples whose decimals are doubles.\<close>

definition exact :: "rat \<Rightarrow> rat" where
  "exact q = q"

definition gray_square :: raster where
  "gray_square = \<lparr>shape0 = 2, shape1 = 2, px = (\<lambda>i j. gray_pixel)\<rparr>"

definition image_page :: "contents \<Rightarrow> xobject list \<Rightarrow> page" where
  "image_page c xs =
     \<lparr>has_extract_text = True, extract_text = Inr None, contents = c, resources = XObjects xs\<rparr>"

definition rgb_gray_image :: image where
  "rgb_gray_image =
     \<lparr>width = 2, height = 2, colorspace = CsName ''/DeviceRGB'', decoded = RGB gray_square\<rparr>"

definition calrgb_gray_image :: image where
  "calrgb_gray_image =
     \<lparr>width = 2, height = 2, colorspace = CsArray [''/CalRGB'', ''{}''],
      decoded = RGB gray_square\<rparr>"

definition plain_gray_image :: image where
  "plain_gray_image =
     \<lparr>width = 2, height = 2, colorspace = CsName ''/DeviceGray'', decoded = RGB gray_square\<rparr>"

definition skipped_image :: image where
  "skipped_image =
     \<lparr>width = 0, height = 2, colorspace = CsName ''/DeviceRGB'',
      decoded = RGB (row_of_ten 10)\<rparr>"

definition broken_image :: image where
  "broken_image =
     \<lparr>width = 5, height = 5, colorspace = NoColorSpace, decoded = DecodeFails ImageError\<rparr>"

definition red_image :: image where
  "red_image =
     \<lparr>width = 10, height = 1, colorspace = NoColorSpace, decoded = RGB (row_of_ten 10)\<rparr>"

definition two_fills :: string where
  "two_fills = ''0.5 0.5 0.5 rg 1 0 0 rg''"

definition dotted_fill :: string where
  "dotted_fill = ''1. 0. 0. rg''"

definition dotted_page :: page where
  "dotted_page = image_page (ContentStream (Inr dotted_fill)) []"

section \<open>Properties of find_figure_pages and extract_figure_info\<close>

text \<open>
  C9. When the document cannot be opened or parsed, \<open>find_figure_pages\<close> returns the
  empty list and nothing is written; and for every document, output file and offset the
  function returns, no exception leaves it.
\<close>

theorem open_failure_returns_empty:
  "find_figure_pages (CannotOpen e) out page_offset = Inr ([], None)
   \<and> (\<exists>r. find_figure_pages pdf out' page_offset' = Inr r)"
  by (simp add: find_figure_pages_def find_figure_pages_try_def split: sum.splits prod.splits)

lemma sample_text_figures:
  "extract_figure_info (text_page sample_text)
     = [(''3-2'', ''A sample diagram''), (''3-2'', ''continued'')]"
  by code_simp

text \<open>
  C3, as stated: for the page whose text is \<^verbatim>\<open>Figure 3-2. A sample diagram.\<close> followed
  on the next line by \<^verbatim>\<open>Figure 3-2 continued\<close>, the output would be the single record
  \<open>3-2\<close>, \<open>A sample diagram\<close>. It is not.
\<close>

theorem sample_text_not_one_record:
  "extract_figure_info (text_page sample_text) \<noteq> [(''3-2'', ''A sample diagram'')]"
  by (simp add: sample_text_figures)

text \<open>
  C3, amended: on that page the pattern matches both occurrences, the caption of the
  second match is \<open>continued\<close>, which is not empty, and the output holds two records:
  \<open>3-2\<close> with \<open>A sample diagram\<close> and \<open>3-2\<close> with \<open>continued\<close>.
\<close>

theorem sample_text_two_records:
  "findall figure_pattern sample_text
     = [Tuple [''3'', ''2'', ''A sample diagram.''], Tuple [''3'', ''2'', ''continued'']]
   \<and> extract_figure_info (text_page sample_text)
     = [(''3-2'', ''A sample diagram''), (''3-2'', ''continued'')]"
  by code_simp

lemma page_loop_offset:
  "page_loop off n acc pages = Inr figs \<Longrightarrow> \<forall>f\<in>set acc. book_page f = pdf_page f - off
     \<Longrightarrow> \<forall>f\<in>set figs. book_page f = pdf_page f - off"
proof (induction pages arbitrary: n acc)
  case Nil
  then show ?case by simp
next
  case (Cons pg pages)
  show ?case
  proof (cases pg)
    case (Inl e)
    with Cons.prems show ?thesis by simp
  next
    case (Inr page)
    let ?new = "map (\<lambda>(number, cap). \<lparr>figure_number = number, caption = cap,
                      pdf_page = int n + 1, book_page = int n + 1 - off\<rparr>)
                  (extract_figure_info page)"
    from Cons.prems(1) Inr have run: "page_loop off (n + 1) (acc @ ?new) pages = Inr figs"
      by (simp add: Let_def)
    have "\<forall>f\<in>set (acc @ ?new). book_page f = pdf_page f - off"
      using Cons.prems(2) by auto
    with Cons.IH[OF run] show ?thesis .
  qed
qed

text \<open>
  C6. For every record collected by a run with offset \<open>page_offset\<close>,
  \<open>book_page = pdf_page - page_offset\<close>; a record is among the book figures exactly
  when its book page is positive and among the front matter figures otherwise, and a
  record with book page 0 is front matter.
\<close>

theorem book_page_partition:
  assumes "page_loop page_offset 0 [] pages = Inr all_figures"
  shows "(\<forall>fig\<in>set all_figures. book_page fig = pdf_page fig - page_offset)
     \<and> (\<forall>fig\<in>set all_figures.
           (fig \<in> set (book_figures all_figures) \<longleftrightarrow> book_page fig > 0)
         \<and> (fig \<in> set (front_matter_figures all_figures) \<longleftrightarrow> \<not> book_page fig > 0)
         \<and> (book_page fig = 0 \<longrightarrow> fig \<in> set (front_matter_figures all_figures)))"
proof -
  have "\<forall>fig\<in>set all_figures. book_page fig = pdf_page fig - page_offset"
    using page_loop_offset[OF assms] by simp
  then show ?thesis
    by (auto simp: book_figures_def front_matter_figures_def)
qed

lemma two_pages_figures:
  "page_loop 1 0 [] two_pages = Inr [overview_figure, detail_figure]"
  by code_simp

theorem book_page_partition_witness:
  "page_loop 1 0 [] two_pages = Inr [overview_figure, detail_figure]
   \<and> book_page overview_figure = pdf_page overview_figure - 1
   \<and> book_page detail_figure = pdf_page detail_figure - 1
   \<and> book_page overview_figure = 0
   \<and> overview_figure \<in> set (front_matter_figures [overview_figure, detail_figure])
   \<and> overview_figure \<notin> set (book_figures [overview_figure, detail_figure])
   \<and> detail_figure \<in> set (book_figures [overview_figure, detail_figure])"
  using two_pages_figures book_page_partition[OF two_pages_figures]
  by (simp add: overview_figure_def detail_figure_def)

lemma with_keys_sound:
  "with_keys figs = Inr keyed \<Longrightarrow>
     map snd keyed = figs \<and> (\<forall>kf\<in>set keyed. sort_key_fig (snd kf) = Inr (fst kf))"
proof (induction figs arbitrary: keyed)
  case Nil
  then show ?case by simp
next
  case (Cons fig figs)
  from Cons.prems obtain k rest where
    k: "sort_key_fig fig = Inr k" and rest: "with_keys figs = Inr rest"
    and keyed: "keyed = (k, fig) # rest"
    by (auto simp: and_then_def split: sum.splits)
  from Cons.IH[OF rest] k keyed show ?case by auto
qed

lemma sorted_figures_keys:
  assumes "sorted_figures figs = Inr out"
  shows "\<exists>keys. map sort_key_fig out = map Inr keys \<and> sorted keys \<and> set out = set figs"
proof -
  from assms obtain keyed where wk: "with_keys figs = Inr keyed"
    and out: "out = map snd (sort_key fst keyed)"
    by (auto simp: sorted_figures_def and_then_def split: sum.splits)
  let ?s = "sort_key fst keyed"
  have a: "\<forall>kf\<in>set ?s. sort_key_fig (snd kf) = Inr (fst kf)"
    using with_keys_sound[OF wk] by simp
  then have "map sort_key_fig out = map Inr (map fst ?s)"
    by (simp add: out)
  moreover have "sorted (map fst ?s)" by (rule sorted_sort_key)
  moreover have "set out = set figs"
  proof -
    have "set out = snd ` set keyed" by (simp add: out)
    also have "\<dots> = set (map snd keyed)" by simp
    also have "\<dots> = set figs" using with_keys_sound[OF wk] by simp
    finally show ?thesis .
  qed
  ultimately show ?thesis by blast
qed

lemma key_2_9: "figure_number f = ''2-9'' \<Longrightarrow> sort_key_fig f = Inr (2, 9)"
  by (simp add: sort_key_fig_def and_then_def py_int_def digits_value_def is_digit_def code_def)

lemma key_2_10: "figure_number f = ''2-10'' \<Longrightarrow> sort_key_fig f = Inr (2, 10)"
  by (simp add: sort_key_fig_def and_then_def py_int_def digits_value_def is_digit_def code_def)

lemma key_10_1: "figure_number f = ''10-1'' \<Longrightarrow> sort_key_fig f = Inr (10, 1)"
  by (simp add: sort_key_fig_def and_then_def py_int_def digits_value_def is_digit_def code_def)

lemma sorted_keys_order:
  fixes keys :: "(int \<times> int) list"
  assumes "sorted keys" "i < length keys" "j < length keys" "keys ! i < keys ! j"
  shows "i < j"
proof (rule ccontr)
  assume "\<not> i < j"
  then have "j \<le> i" by simp
  with assms(1,2) have "keys ! j \<le> keys ! i" by (simp add: sorted_nth_mono)
  with assms(4) show False by simp
qed

text \<open>
  C7. The figures of the detailed section are in ascending order of the pairs
  (chapter, index) of numbers, compared component by component: a figure \<open>2-10\<close> comes
  after every figure \<open>2-9\<close> and before every figure \<open>10-1\<close>.
\<close>

theorem detailed_section_numeric_order:
  assumes "find_figure_pages pdf out page_offset = Inr (returned, Some rep)"
  shows "(\<exists>keys. map sort_key_fig (rep_detailed rep) = map Inr keys \<and> sorted keys)
     \<and> (\<forall>i j. i < length (rep_detailed rep) \<and> j < length (rep_detailed rep) \<longrightarrow>
           (figure_number (rep_detailed rep ! i) = ''2-9''
              \<and> figure_number (rep_detailed rep ! j) = ''2-10'' \<longrightarrow> i < j)
         \<and> (figure_number (rep_detailed rep ! i) = ''2-10''
              \<and> figure_number (rep_detailed rep ! j) = ''10-1'' \<longrightarrow> i < j))"
proof -
  from assms obtain figs where sf: "sorted_figures figs = Inr (rep_detailed rep)"
    by (auto simp: find_figure_pages_def find_figure_pages_try_def and_then_def
             split: sum.splits pdf_file.splits output_file.splits)
  from sorted_figures_keys[OF sf] obtain keys where
    keys: "map sort_key_fig (rep_detailed rep) = map Inr keys" and srt: "sorted keys"
    by blast
  from keys have len: "length keys = length (rep_detailed rep)"
    by (metis length_map)
  have nth: "\<And>i. i < length (rep_detailed rep) \<Longrightarrow>
               sort_key_fig (rep_detailed rep ! i) = Inr (keys ! i)"
  proof -
    fix i assume i: "i < length (rep_detailed rep)"
    have "map sort_key_fig (rep_detailed rep) ! i = map Inr keys ! i" by (simp add: keys)
    with i len show "sort_key_fig (rep_detailed rep ! i) = Inr (keys ! i)" by simp
  qed
  have "\<And>i j. i < length (rep_detailed rep) \<Longrightarrow> j < length (rep_detailed rep) \<Longrightarrow>
           (figure_number (rep_detailed rep ! i) = ''2-9''
              \<and> figure_number (rep_detailed rep ! j) = ''2-10'' \<longrightarrow> i < j)
         \<and> (figure_number (rep_detailed rep ! i) = ''2-10''
              \<and> figure_number (rep_detailed rep ! j) = ''10-1'' \<longrightarrow> i < j)"
  proof -
    fix i j assume i: "i < length (rep_detailed rep)" and j: "j < length (rep_detailed rep)"
    show "(figure_number (rep_detailed rep ! i) = ''2-9''
              \<and> figure_number (rep_detailed rep ! j) = ''2-10'' \<longrightarrow> i < j)
         \<and> (figure_number (rep_detailed rep ! i) = ''2-10''
              \<and> figure_number (rep_detailed rep ! j) = ''10-1'' \<longrightarrow> i < j)"
    proof (intro conjI impI)
      assume "figure_number (rep_detailed rep ! i) = ''2-9''
              \<and> figure_number (rep_detailed rep ! j) = ''2-10''"
      then have "keys ! i = (2, 9)" "keys ! j = (2, 10)"
        using nth[OF i] nth[OF j] key_2_9 key_2_10 by auto
      then have "keys ! i < keys ! j" by simp
      with srt i j len show "i < j" by (auto intro: sorted_keys_order)
    next
      assume "figure_number (rep_detailed rep ! i) = ''2-10''
              \<and> figure_number (rep_detailed rep ! j) = ''10-1''"
      then have "keys ! i = (2, 10)" "keys ! j = (10, 1)"
        using nth[OF i] nth[OF j] key_2_10 key_10_1 by auto
      then have "keys ! i < keys ! j" by simp
      with srt i j len show "i < j" by (auto intro: sorted_keys_order)
    qed
  qed
  with keys srt show ?thesis by blast
qed

lemma three_chapters_run:
  "find_figure_pages three_chapters Writable 0 = Inr ([1, 2, 3], Some three_chapters_report)"
  by code_simp

theorem detailed_section_numeric_order_witness:
  "find_figure_pages three_chapters Writable 0 = Inr ([1, 2, 3], Some three_chapters_report)
   \<and> map figure_number (rep_detailed three_chapters_report) = [''2-9'', ''2-10'', ''10-1'']
   \<and> (\<exists>keys. map sort_key_fig (rep_detailed three_chapters_report) = map Inr keys
         \<and> sorted keys)"
  using three_chapters_run detailed_section_numeric_order[OF three_chapters_run]
  by (simp add: three_chapters_report_def)

section \<open>Properties of the pixel tests\<close>

lemma fraction_exceeds_plus_one:
  "of_nat n = st * of_nat t + 1 \<Longrightarrow> fraction_exceeds n t st"
proof (cases "t = 0")
  case True
  assume "of_nat n = st * of_nat t + 1"
  with True have "(of_nat n :: rat) = 1" by simp
  then have "n \<noteq> 0" by auto
  with True show ?thesis by (simp add: fraction_exceeds_def)
next
  case False
  assume h: "of_nat n = st * of_nat t + 1"
  from False have pos: "(0::rat) < of_nat t" by simp
  have "of_nat n / (of_nat t :: rat) = st + 1 / of_nat t"
    using False by (simp add: h field_simps)
  moreover have "(0::rat) < 1 / of_nat t" using pos by simp
  ultimately show ?thesis using False by (simp add: fraction_exceeds_def)
qed

lemma fraction_exceeds_exact:
  "of_nat n = st * of_nat t \<Longrightarrow> \<not> fraction_exceeds n t st"
  by (cases "t = 0") (auto simp: fraction_exceeds_def)

text \<open>
  C5. The channel-difference test compares the fraction of colored pixels with
  \<open>sample_threshold\<close> strictly: when the number of pixels of the (sampled) array that
  have a channel difference above \<open>color_threshold\<close> is
  \<open>sample_threshold * total_pixels + 1\<close> the test is positive, and when it is
  \<open>sample_threshold * total_pixels\<close> the test is negative.
\<close>

theorem channel_difference_strict:
  "(of_nat (count_pixels (color_mask color_threshold) a)
        = sample_threshold * of_nat (total_pixels a) + 1
      \<longrightarrow> channel_difference_test color_threshold sample_threshold a)
   \<and> (of_nat (count_pixels (color_mask color_threshold) a)
        = sample_threshold * of_nat (total_pixels a)
      \<longrightarrow> \<not> channel_difference_test color_threshold sample_threshold a)"
  unfolding channel_difference_test_def
  using fraction_exceeds_plus_one fraction_exceeds_exact by blast

lemma row_counts:
  "count_pixels (color_mask 3) (row_of_ten 3) = 3"
  "count_pixels (color_mask 3) (row_of_ten 2) = 2"
  "total_pixels (row_of_ten 3) = 10"
  "total_pixels (row_of_ten 2) = 10"
  by code_simp+

theorem channel_difference_strict_witness:
  "of_nat (count_pixels (color_mask 3) (row_of_ten 3))
       = (1 / 5 :: rat) * of_nat (total_pixels (row_of_ten 3)) + 1
   \<and> channel_difference_test 3 (1 / 5) (row_of_ten 3)
   \<and> of_nat (count_pixels (color_mask 3) (row_of_ten 2))
       = (1 / 5 :: rat) * of_nat (total_pixels (row_of_ten 2))
   \<and> \<not> channel_difference_test 3 (1 / 5) (row_of_ten 2)"
  using channel_difference_strict[of 3 "row_of_ten 3" "1 / 5"]
        channel_difference_strict[of 3 "row_of_ten 2" "1 / 5"]
  by (simp add: row_counts)


lemma chan_nonneg: "0 \<le> chan w"
  by (simp add: chan_def)

lemma gray_not_color: "is_grayscale p \<Longrightarrow> 0 \<le> ct \<Longrightarrow> \<not> color_mask ct p"
  by (simp add: is_grayscale_def color_mask_def)

lemma gray_not_yellow: "is_grayscale p \<Longrightarrow> \<not> yellow_mask p"
proof -
  assume g: "is_grayscale p"
  have "(0::rat) \<le> of_int (chan (blue p))" using chan_nonneg by simp
  then have "\<not> (of_int (chan (blue p)) :: rat) > of_int (chan (blue p)) * (12 / 10)" by simp
  with g show ?thesis by (simp add: is_grayscale_def yellow_mask_def)
qed

lemma gray_not_blue: "is_grayscale p \<Longrightarrow> \<not> blue_mask p"
proof -
  assume g: "is_grayscale p"
  have "(0::rat) \<le> of_int (chan (blue p))" using chan_nonneg by simp
  then have "\<not> (of_int (chan (blue p)) :: rat) > of_int (chan (blue p)) * (12 / 10)" by simp
  with g show ?thesis by (simp add: is_grayscale_def blue_mask_def)
qed

lemma count_pixels_none:
  "\<forall>p\<in>set (pixels a). \<not> m p \<Longrightarrow> count_pixels m a = 0"
  by (simp add: count_pixels_def)

lemma fraction_exceeds_zero: "0 \<le> thr \<Longrightarrow> \<not> fraction_exceeds 0 t thr"
  by (simp add: fraction_exceeds_def)

lemma round_half_even_nonneg: "0 \<le> x \<Longrightarrow> 0 \<le> round_half_even x"
proof -
  assume "0 \<le> x"
  then have "0 \<le> \<lfloor>x\<rfloor>" by simp
  then show ?thesis by (simp add: round_half_even_def Let_def)
qed

lemma round_double_nonneg: "0 \<le> q \<Longrightarrow> 0 \<le> round_double q"
proof (cases "q = 0")
  case True
  then show ?thesis by (simp add: round_double_def)
next
  case False
  assume q: "0 \<le> q"
  define u :: rat where "u = 2 powi (max (floor_log2 \<bar>q\<bar>) (- 1022) - 52)"
  have u: "0 < u" by (simp add: u_def)
  with q have "0 \<le> q / u" by simp
  then have "0 \<le> round_half_even (q / u)" by (rule round_half_even_nonneg)
  then have "(0::rat) \<le> of_int (round_half_even (q / u)) * u" using u by simp
  with False show ?thesis by (simp add: round_double_def Let_def u_def)
qed

lemma tenth_nonneg: "0 \<le> st \<Longrightarrow> 0 \<le> tenth st"
proof -
  assume "0 \<le> st"
  then have "0 \<le> round_double st" by (rule round_double_nonneg)
  moreover have "0 \<le> round_double (1 / 10)" by (rule round_double_nonneg) simp
  ultimately have "0 \<le> round_double st * round_double (1 / 10)" by simp
  then show ?thesis unfolding tenth_def by (rule round_double_nonneg)
qed

lemma double_fraction_exceeds_zero: "0 \<le> thr \<Longrightarrow> \<not> double_fraction_exceeds 0 t thr"
  by (simp add: double_fraction_exceeds_def round_double_def)

lemma in_pixels:
  "p \<in> set (pixels a) \<longleftrightarrow> (\<exists>i j. i < shape0 a \<and> j < shape1 a \<and> p = px a i j)"
  by (fastforce simp: pixels_def)

lemma stride_index: "0 < step \<Longrightarrow> i < (n + step - 1) div step \<Longrightarrow> i * step < (n::nat)"
proof -
  assume s: "0 < step" and i: "i < (n + step - 1) div step"
  from i have "Suc i \<le> (n + step - 1) div step" by simp
  then have "Suc i * step \<le> n + step - 1"
    using s by (simp add: less_eq_div_iff_mult_less_eq)
  then show ?thesis using s by (cases step) auto
qed

lemma pixels_stride: "0 < step \<Longrightarrow> set (pixels (stride step a)) \<subseteq> set (pixels a)"
proof
  fix p assume s: "0 < step" and "p \<in> set (pixels (stride step a))"
  then obtain i j where i: "i < (shape0 a + step - 1) div step"
    and j: "j < (shape1 a + step - 1) div step" and p: "p = px a (i * step) (j * step)"
    by (auto simp: in_pixels stride_def)
  from stride_index[OF s i] stride_index[OF s j] p
  show "p \<in> set (pixels a)" unfolding in_pixels by blast
qed

lemma pixels_downsample: "set (pixels (downsample a)) \<subseteq> set (pixels a)"
  using pixels_stride[of "max 1 (min (shape0 a) (shape1 a) div 100)" a]
  by (auto simp: downsample_def)

lemma gray_tests:
  assumes gray: "list_all is_grayscale (pixels a)" and ct: "0 \<le> ct" and st: "0 \<le> st"
  shows "\<not> channel_difference_test ct st (downsample a)"
    and "\<not> non_grayscale_test st (downsample a)"
    and "\<not> yellow_test st (downsample a)"
    and "\<not> blue_test st (downsample a)"
proof -
  from gray pixels_downsample[of a]
  have g: "\<forall>p\<in>set (pixels (downsample a)). is_grayscale p"
    by (auto simp: list_all_iff)
  have c1: "count_pixels (color_mask ct) (downsample a) = 0"
    using g ct by (intro count_pixels_none) (auto dest: gray_not_color)
  have c2: "count_pixels (\<lambda>p. \<not> is_grayscale p) (downsample a) = 0"
    using g by (intro count_pixels_none) auto
  have c3: "count_pixels yellow_mask (downsample a) = 0"
    using g by (intro count_pixels_none) (auto dest: gray_not_yellow)
  have c4: "count_pixels blue_mask (downsample a) = 0"
    using g by (intro count_pixels_none) (auto dest: gray_not_blue)
  show "\<not> channel_difference_test ct st (downsample a)"
    using st by (simp add: channel_difference_test_def c1 fraction_exceeds_zero)
  show "\<not> non_grayscale_test st (downsample a)"
    using st by (simp add: non_grayscale_test_def c2 fraction_exceeds_zero)
  show "\<not> yellow_test st (downsample a)"
    using tenth_nonneg[OF st] by (simp add: yellow_test_def c3 double_fraction_exceeds_zero)
  show "\<not> blue_test st (downsample a)"
    using tenth_nonneg[OF st] by (simp add: blue_test_def c4 double_fraction_exceeds_zero)
qed

lemma gray_square_gray: "list_all is_grayscale (pixels gray_square)"
  by code_simp

lemma small_downsample:
  "downsample (row_of_ten n) = row_of_ten n"
  "downsample gray_square = gray_square"
  by (simp_all add: downsample_def row_of_ten_def gray_square_def)

lemma red_row_counts:
  "count_pixels (color_mask 3) (row_of_ten 10) = 10"
  "total_pixels (row_of_ten 10) = 10"
  by code_simp+

lemma red_row_positive: "analyze_array 3 (1 / 1000) (row_of_ten 10)"
  by (simp add: analyze_array_def channel_difference_test_def fraction_exceeds_def
        small_downsample red_row_counts)

lemma gray_square_negative: "\<not> analyze_array 3 (1 / 1000) gray_square"
  using gray_tests[OF gray_square_gray, of 3 "1 / 1000"]
  by (simp add: analyze_array_def)


section \<open>Properties of the image scan\<close>

lemma check_image_cases:
  "check_image ct st hc obj = (Continue, hc \<or> (width obj \<noteq> 0 \<and> height obj \<noteq> 0 \<and> declares_color (colorspace obj)))
   \<or> check_image ct st hc obj = (Return True, hc \<or> declares_color (colorspace obj))"
  by (auto simp: check_image_def Let_def split: sum.splits bool.splits)

lemma check_image_flag_set:
  "hc \<Longrightarrow> check_image ct st hc obj = (Continue, True) \<or> check_image ct st hc obj = (Return True, True)"
  using check_image_cases[of ct st hc obj] by auto

lemma scan_xobjects_flag_set:
  "scan_xobjects ct st True xs = (Continue, True)
   \<or> scan_xobjects ct st True xs = (Return True, True)
   \<or> (\<exists>e. scan_xobjects ct st True xs = (Raise e, True))"
proof (induction xs)
  case Nil
  then show ?case by simp
next
  case (Cons x xs)
  show ?case
  proof (cases x)
    case (Unreadable e)
    then show ?thesis by simp
  next
    case NotImage
    with Cons.IH show ?thesis by simp
  next
    case (ImageXObject obj)
    from check_image_flag_set[of True ct st obj]
    show ?thesis using Cons.IH ImageXObject by auto
  qed
qed

lemma scan_xobjects_append:
  "scan_xobjects ct st hc pre = (Continue, h) \<Longrightarrow>
     scan_xobjects ct st hc (pre @ xs) = scan_xobjects ct st h xs"
proof (induction pre arbitrary: hc)
  case Nil
  then show ?case by simp
next
  case (Cons x pre)
  show ?case
  proof (cases x)
    case (Unreadable e)
    with Cons.prems show ?thesis by simp
  next
    case NotImage
    with Cons show ?thesis by simp
  next
    case (ImageXObject obj)
    with Cons.prems obtain h' where
      ci: "check_image ct st hc obj = (Continue, h')" and
      rest: "scan_xobjects ct st h' pre = (Continue, h)"
      by (auto split: prod.splits control.splits)
    from Cons.IH[OF rest] ci ImageXObject show ?thesis by simp
  qed
qed

lemma scan_xobjects_flag_accumulates:
  "scan_xobjects ct st hc pre = (Continue, h) \<Longrightarrow> ImageXObject a \<in> set pre \<Longrightarrow>
     width a \<noteq> 0 \<Longrightarrow> height a \<noteq> 0 \<Longrightarrow> declares_color (colorspace a) \<Longrightarrow> h"
proof (induction pre arbitrary: hc)
  case Nil
  then show ?case by simp
next
  case (Cons x pre)
  show ?case
  proof (cases x)
    case (Unreadable e)
    with Cons.prems show ?thesis by simp
  next
    case NotImage
    with Cons show ?thesis by auto
  next
    case (ImageXObject obj)
    with Cons.prems(1) obtain h' where
      ci: "check_image ct st hc obj = (Continue, h')" and
      rest: "scan_xobjects ct st h' pre = (Continue, h)"
      by (auto split: prod.splits control.splits)
    show ?thesis
    proof (cases "obj = a")
      case True
      with ci Cons.prems have "h'"
        using check_image_cases[of ct st hc obj] by auto
      with rest scan_xobjects_flag_set[of ct st pre] show ?thesis by auto
    next
      case False
      with Cons.prems(2) ImageXObject have "ImageXObject a \<in> set pre" by auto
      from Cons.IH[OF rest this Cons.prems(3-5)] show ?thesis .
    qed
  qed
qed

lemma scan_content_cases:
  "scan_content rnd page = Continue \<or> scan_content rnd page = Return True"
  by (auto simp: scan_content_def split: sum.splits bool.splits)

lemma is_color_page_images:
  "scan_content rnd page \<noteq> Return True \<Longrightarrow> resources page = XObjects xs \<Longrightarrow>
     is_color_page rnd page ct st =
       (case scan_xobjects ct st False xs of
          (Return b, h) \<Rightarrow> Inr b | (Raise e, h) \<Rightarrow> Inr h | (Continue, h) \<Rightarrow> Inr h)"
  using scan_content_cases[of rnd page]
  by (auto simp: is_color_page_def is_color_page_try_def scan_resources_def
           split: prod.splits control.splits)

lemma is_color_page_vector:
  "scan_content rnd page = Return True \<Longrightarrow> is_color_page rnd page ct st = Inr True"
  by (simp add: is_color_page_def is_color_page_try_def)

lemma example_colorspaces:
  "declares_color (CsName ''/DeviceRGB'')"
  "declares_color (CsArray [''/CalRGB'', ''{}''])"
  "\<not> declares_color (CsName ''/DeviceGray'')"
  "\<not> declares_color NoColorSpace"
  by code_simp+

lemma image_page_fields:
  "has_extract_text (image_page c xs)"
  "contents (image_page c xs) = c"
  "resources (image_page c xs) = XObjects xs"
  by (simp_all add: image_page_def)


lemma image_page_no_vector: "scan_content rnd (image_page NoContents xs) = Continue"
  by (simp add: scan_content_def image_page_fields)

lemma example_images:
  "check_image 3 (1 / 1000) h rgb_gray_image = (Continue, True)"
  "check_image 3 (1 / 1000) h calrgb_gray_image = (Continue, True)"
  "check_image 3 (1 / 1000) h plain_gray_image = (Continue, h)"
  "check_image 3 (1 / 1000) h skipped_image = (Continue, h)"
  "check_image 3 (1 / 1000) h broken_image = (if h then Return True else Continue, h)"
  "check_image 3 (1 / 1000) h red_image = (Return True, h)"
  by (simp_all add: check_image_def pixel_analysis_def rgb_gray_image_def
        calrgb_gray_image_def plain_gray_image_def skipped_image_def broken_image_def
        red_image_def gray_square_negative red_row_positive example_colorspaces)

lemma example_analysis:
  "pixel_analysis 3 (1 / 1000) plain_gray_image = Inr False"
  "pixel_analysis 3 (1 / 1000) broken_image = Inl ImageError"
  by (simp_all add: pixel_analysis_def plain_gray_image_def broken_image_def
        gray_square_negative)

text \<open>
  C10. The fallback of line 153 reads the flag \<^verbatim>\<open>has_color\<close> as left by all the
  images inspected so far: when an earlier image of the page that was not skipped declared
  a colorspace whose name contains \<open>RGB\<close>, \<open>Lab\<close> or \<open>DeviceRGB\<close> and the scan reaches
  a later image whose pixels cannot be decoded, the loop returns \<open>True\<close> at that image,
  whatever the colorspace of the failing image and whatever follows it, and so does
  \<open>is_color_page\<close>.
\<close>

theorem fallback_uses_accumulated_flag:
  assumes reach: "scan_xobjects ct st False pre = (Continue, h)"
    and earlier: "ImageXObject a \<in> set pre" "width a \<noteq> 0" "height a \<noteq> 0"
                 "declares_color (colorspace a)"
    and later: "width obj \<noteq> 0" "height obj \<noteq> 0" "decoded obj = DecodeFails e"
    and res: "resources page = XObjects (pre @ ImageXObject obj # rest)"
  shows "scan_xobjects ct st False (pre @ ImageXObject obj # rest) = (Return True, True)
     \<and> is_color_page rnd page ct st = Inr True"
proof -
  from scan_xobjects_flag_accumulates[OF reach earlier] have h: "h" .
  have ci: "check_image ct st True obj = (Return True, True)"
    using later by (simp add: check_image_def pixel_analysis_def)
  have scan: "scan_xobjects ct st False (pre @ ImageXObject obj # rest) = (Return True, True)"
    using scan_xobjects_append[OF reach] h ci by simp
  show ?thesis
  proof (cases "scan_content rnd page = Return True")
    case True
    with scan is_color_page_vector show ?thesis by blast
  next
    case False
    from is_color_page_images[OF False res] scan show ?thesis by simp
  qed
qed

theorem fallback_uses_accumulated_flag_witness:
  "scan_xobjects 3 (1 / 1000) False [ImageXObject rgb_gray_image] = (Continue, True)
   \<and> \<not> declares_color (colorspace broken_image)
   \<and> scan_xobjects 3 (1 / 1000) False
         ([ImageXObject rgb_gray_image] @ ImageXObject broken_image # [ImageXObject red_image])
       = (Return True, True)
   \<and> is_color_page exact
         (image_page NoContents
            ([ImageXObject rgb_gray_image] @ ImageXObject broken_image
               # [ImageXObject red_image])) 3 (1 / 1000)
       = Inr True"
proof -
  have reach: "scan_xobjects 3 (1 / 1000) False [ImageXObject rgb_gray_image] = (Continue, True)"
    by (simp add: example_images)
  have earlier: "ImageXObject rgb_gray_image \<in> set [ImageXObject rgb_gray_image]"
    "width rgb_gray_image \<noteq> 0" "height rgb_gray_image \<noteq> 0"
    "declares_color (colorspace rgb_gray_image)"
    by (simp_all add: rgb_gray_image_def example_colorspaces)
  have later: "width broken_image \<noteq> 0" "height broken_image \<noteq> 0"
    "decoded broken_image = DecodeFails ImageError"
    by (simp_all add: broken_image_def)
  have res: "resources (image_page NoContents
       ([ImageXObject rgb_gray_image] @ ImageXObject broken_image # [ImageXObject red_image]))
     = XObjects ([ImageXObject rgb_gray_image] @ ImageXObject broken_image
         # [ImageXObject red_image])"
    by (simp add: image_page_fields)
  have nd: "\<not> declares_color (colorspace broken_image)"
    by (simp add: broken_image_def example_colorspaces)
  from fallback_uses_accumulated_flag[OF reach earlier later res, where rnd = exact] reach nd
  show ?thesis by simp
qed

lemma quiet_scan:
  assumes "\<forall>x\<in>set xs. \<exists>obj. x = ImageXObject obj \<and>
             (width obj = 0 \<or> height obj = 0 \<or> pixel_analysis ct st obj = Inr False
              \<or> (\<exists>e. pixel_analysis ct st obj = Inl e))"
  shows "let flag = (hc \<or> (\<exists>obj. ImageXObject obj \<in> set xs \<and> width obj \<noteq> 0
                 \<and> height obj \<noteq> 0 \<and> declares_color (colorspace obj)))
         in scan_xobjects ct st hc xs = (Continue, flag)
            \<or> (flag \<and> scan_xobjects ct st hc xs = (Return True, True))"
  using assms
proof (induction xs arbitrary: hc)
  case Nil
  then show ?case by simp
next
  case (Cons x xs)
  from Cons.prems obtain obj where x: "x = ImageXObject obj"
    and q: "width obj = 0 \<or> height obj = 0 \<or> pixel_analysis ct st obj = Inr False
              \<or> (\<exists>e. pixel_analysis ct st obj = Inl e)"
    by auto
  let ?d = "width obj \<noteq> 0 \<and> height obj \<noteq> 0 \<and> declares_color (colorspace obj)"
  from q have ci: "check_image ct st hc obj = (Continue, hc \<or> ?d)
      \<or> (hc \<or> ?d) \<and> check_image ct st hc obj = (Return True, True)"
    by (auto simp: check_image_def Let_def)
  from Cons.prems have rest: "\<forall>x\<in>set xs. \<exists>obj. x = ImageXObject obj \<and>
             (width obj = 0 \<or> height obj = 0 \<or> pixel_analysis ct st obj = Inr False
              \<or> (\<exists>e. pixel_analysis ct st obj = Inl e))" by simp
  note ih = Cons.IH[OF rest, of "hc \<or> ?d"]
  from ci show ?case
  proof
    assume c: "check_image ct st hc obj = (Continue, hc \<or> ?d)"
    then have "scan_xobjects ct st hc (x # xs) = scan_xobjects ct st (hc \<or> ?d) xs"
      by (simp add: x)
    with ih show ?thesis unfolding Let_def x by auto
  next
    assume c: "(hc \<or> ?d) \<and> check_image ct st hc obj = (Return True, True)"
    then have "scan_xobjects ct st hc (x # xs) = (Return True, True)" by (simp add: x)
    with c show ?thesis unfolding Let_def x by auto
  qed
qed


text \<open>
  C1, as stated: a page with no vector-color signal whose images are all skipped, or
  decoded with the four pixel tests negative, or not decodable with the flag false,
  would be classified \<open>False\<close>. The page below has one image, declared
  \<^verbatim>\<open>/DeviceRGB\<close>, whose pixels are all gray: the four tests are negative and the page is
  classified \<open>True\<close>.
\<close>

theorem gray_rgb_image_page_is_color:
  "scan_content exact (image_page NoContents [ImageXObject rgb_gray_image]) \<noteq> Return True
   \<and> width rgb_gray_image \<noteq> 0 \<and> height rgb_gray_image \<noteq> 0
   \<and> decoded rgb_gray_image = RGB gray_square
   \<and> \<not> channel_difference_test 3 (1 / 1000) (downsample gray_square)
   \<and> \<not> non_grayscale_test (1 / 1000) (downsample gray_square)
   \<and> \<not> yellow_test (1 / 1000) (downsample gray_square)
   \<and> \<not> blue_test (1 / 1000) (downsample gray_square)
   \<and> is_color_page exact (image_page NoContents [ImageXObject rgb_gray_image]) 3 (1 / 1000)
       = Inr True"
proof -
  have "is_color_page exact (image_page NoContents [ImageXObject rgb_gray_image]) 3 (1 / 1000)
       = Inr True"
    by (simp add: is_color_page_def is_color_page_try_def image_page_no_vector
          scan_resources_def image_page_fields example_images)
  then show ?thesis
    using gray_tests[OF gray_square_gray, of 3 "1 / 1000"]
    by (simp add: image_page_no_vector rgb_gray_image_def)
qed

text \<open>
  C1, amended: for a page with no vector-color signal whose XObjects are all images that
  are skipped, or whose pixel analysis ends without a positive test, or whose pixels
  cannot be decoded, the classifier returns the colorspace flag: \<open>True\<close> exactly when
  some image that is not skipped declares a colorspace whose name contains \<open>RGB\<close>,
  \<open>Lab\<close> or \<open>DeviceRGB\<close>. The flag is thus sufficient by itself for \<open>True\<close>, and
  the page is classified \<open>False\<close> when no such image declares such a colorspace.
\<close>

theorem quiet_page_returns_flag:
  assumes vec: "scan_content rnd page \<noteq> Return True"
    and res: "resources page = XObjects xs"
    and quiet: "\<forall>x\<in>set xs. \<exists>obj. x = ImageXObject obj \<and>
             (width obj = 0 \<or> height obj = 0 \<or> pixel_analysis ct st obj = Inr False
              \<or> (\<exists>e. pixel_analysis ct st obj = Inl e))"
  shows "is_color_page rnd page ct st =
           Inr (\<exists>obj. ImageXObject obj \<in> set xs \<and> width obj \<noteq> 0 \<and> height obj \<noteq> 0
                  \<and> declares_color (colorspace obj))"
  using quiet_scan[OF quiet, of False] is_color_page_images[OF vec res, of ct st]
  by (auto simp: Let_def)

theorem quiet_page_returns_flag_witness:
  "scan_content exact
       (image_page NoContents
          [ImageXObject skipped_image, ImageXObject plain_gray_image, ImageXObject broken_image])
     \<noteq> Return True
   \<and> width skipped_image = 0
   \<and> pixel_analysis 3 (1 / 1000) plain_gray_image = Inr False
   \<and> pixel_analysis 3 (1 / 1000) broken_image = Inl ImageError
   \<and> is_color_page exact
         (image_page NoContents
            [ImageXObject skipped_image, ImageXObject plain_gray_image,
             ImageXObject broken_image]) 3 (1 / 1000)
       = Inr False"
proof -
  let ?xs = "[ImageXObject skipped_image, ImageXObject plain_gray_image,
              ImageXObject broken_image]"
  have vec: "scan_content exact (image_page NoContents ?xs) \<noteq> Return True"
    by (simp add: image_page_no_vector)
  have res: "resources (image_page NoContents ?xs) = XObjects ?xs"
    by (simp add: image_page_fields)
  have sk: "width skipped_image = 0" by (simp add: skipped_image_def)
  have quiet: "\<forall>x\<in>set ?xs. \<exists>obj. x = ImageXObject obj \<and>
             (width obj = 0 \<or> height obj = 0 \<or> pixel_analysis 3 (1 / 1000) obj = Inr False
              \<or> (\<exists>e. pixel_analysis 3 (1 / 1000) obj = Inl e))"
    using sk example_analysis by simp
  have none: "\<not> (\<exists>obj. ImageXObject obj \<in> set ?xs \<and> width obj \<noteq> 0 \<and> height obj \<noteq> 0
                  \<and> declares_color (colorspace obj))"
    using sk by (auto simp: plain_gray_image_def broken_image_def example_colorspaces)
  from quiet_page_returns_flag[OF vec res quiet] none
  have "is_color_page exact (image_page NoContents ?xs) 3 (1 / 1000) = Inr False"
    by simp
  with vec sk example_analysis show ?thesis by simp
qed

text \<open>
  C4, as stated: for a decoded raster with \<open>R = G = B\<close> at every pixel the four tests
  are negative, so that without a vector-color signal the verdict for the page of that
  image would be \<open>False\<close>. The page below has one such image, declared with the
  colorspace array \<^verbatim>\<open>[/CalRGB ...]\<close>, and is classified \<open>True\<close>.
\<close>

theorem grayscale_raster_page_is_color:
  "list_all is_grayscale (pixels gray_square)
   \<and> decoded calrgb_gray_image = RGB gray_square
   \<and> \<not> channel_difference_test 3 (1 / 1000) (downsample gray_square)
   \<and> \<not> non_grayscale_test (1 / 1000) (downsample gray_square)
   \<and> \<not> yellow_test (1 / 1000) (downsample gray_square)
   \<and> \<not> blue_test (1 / 1000) (downsample gray_square)
   \<and> scan_content exact (image_page NoContents [ImageXObject calrgb_gray_image]) = Continue
   \<and> is_color_page exact (image_page NoContents [ImageXObject calrgb_gray_image]) 3 (1 / 1000)
       = Inr True"
proof -
  have "is_color_page exact (image_page NoContents [ImageXObject calrgb_gray_image]) 3 (1 / 1000)
       = Inr True"
    by (simp add: is_color_page_def is_color_page_try_def image_page_no_vector
          scan_resources_def image_page_fields example_images)
  then show ?thesis
    using gray_tests[OF gray_square_gray, of 3 "1 / 1000"] gray_square_gray
    by (simp add: image_page_no_vector calrgb_gray_image_def)
qed

text \<open>
  C4, amended: for thresholds that are not negative and a decoded raster with
  \<open>R = G = B\<close> at every pixel, the four tests (on the sampled array) are negative and the
  pixel analysis of the image ends without returning; for a page with no vector-color
  signal whose only XObject is that image, not skipped, the verdict is the colorspace
  flag of the image: \<open>False\<close> when its declared colorspace does not contain \<open>RGB\<close>,
  \<open>Lab\<close> or \<open>DeviceRGB\<close>, and \<open>True\<close> when it does.
\<close>

theorem grayscale_raster_tests_negative:
  assumes gray: "list_all is_grayscale (pixels a)"
    and ct: "0 \<le> ct" and st: "0 \<le> st"
    and img: "decoded obj = RGB a" "width obj \<noteq> 0" "height obj \<noteq> 0"
    and vec: "scan_content rnd page \<noteq> Return True"
    and res: "resources page = XObjects [ImageXObject obj]"
  shows "\<not> channel_difference_test ct st (downsample a)
     \<and> \<not> non_grayscale_test st (downsample a)
     \<and> \<not> yellow_test st (downsample a)
     \<and> \<not> blue_test st (downsample a)
     \<and> pixel_analysis ct st obj = Inr False
     \<and> is_color_page rnd page ct st = Inr (declares_color (colorspace obj))"
proof -
  note t = gray_tests[OF gray ct st]
  have pa: "pixel_analysis ct st obj = Inr False"
    using t img by (simp add: pixel_analysis_def analyze_array_def Let_def)
  have "check_image ct st False obj = (Continue, declares_color (colorspace obj))"
    using pa img by (simp add: check_image_def Let_def)
  then have "is_color_page rnd page ct st = Inr (declares_color (colorspace obj))"
    using is_color_page_images[OF vec res, of ct st] by simp
  with t pa show ?thesis by simp
qed

theorem grayscale_raster_tests_negative_witness:
  "list_all is_grayscale (pixels gray_square)
   \<and> decoded plain_gray_image = RGB gray_square
   \<and> \<not> channel_difference_test 3 (1 / 1000) (downsample gray_square)
   \<and> \<not> non_grayscale_test (1 / 1000) (downsample gray_square)
   \<and> \<not> yellow_test (1 / 1000) (downsample gray_square)
   \<and> \<not> blue_test (1 / 1000) (downsample gray_square)
   \<and> is_color_page exact (image_page NoContents [ImageXObject plain_gray_image]) 3 (1 / 1000)
       = Inr False"
proof -
  have img: "decoded plain_gray_image = RGB gray_square" "width plain_gray_image \<noteq> 0"
    "height plain_gray_image \<noteq> 0"
    by (simp_all add: plain_gray_image_def)
  have vec: "scan_content exact (image_page NoContents [ImageXObject plain_gray_image])
      \<noteq> Return True"
    by (simp add: image_page_no_vector)
  have res: "resources (image_page NoContents [ImageXObject plain_gray_image])
      = XObjects [ImageXObject plain_gray_image]"
    by (simp add: image_page_fields)
  have nd: "\<not> declares_color (colorspace plain_gray_image)"
    by (simp add: plain_gray_image_def example_colorspaces)
  from grayscale_raster_tests_negative[OF gray_square_gray _ _ img vec res, of 3 "1 / 1000"]
    nd gray_square_gray img(1)
  show ?thesis by simp
qed

lemma scan_content_failure:
  "content_data (contents page) = Inl e \<Longrightarrow> scan_content rnd page = Continue"
  by (simp add: scan_content_def and_then_def)

lemma scan_content_no_contents:
  "scan_content rnd (page\<lparr>contents := NoContents\<rparr>) = Continue"
  by (simp add: scan_content_def)

lemma is_color_page_resources:
  "scan_content rnd p = Continue \<Longrightarrow> scan_content rnd q = Continue \<Longrightarrow>
   scan_resources ct st False p = scan_resources ct st False q \<Longrightarrow>
   is_color_page rnd p ct st = is_color_page rnd q ct st"
  by (simp add: is_color_page_def is_color_page_try_def)

lemma verdict_flag_set: "verdict (scan_xobjects ct st True xs) = True"
  using scan_xobjects_flag_set[of ct st xs] by (auto simp: verdict_def)

lemma check_image_decode_failure:
  assumes "decoded obj = DecodeFails e"
  shows "verdict (case check_image ct st hc obj of
                    (Continue, h) \<Rightarrow> scan_xobjects ct st h rest | r \<Rightarrow> r)
       = verdict (case check_image ct st hc (obj\<lparr>decoded := NoData\<rparr>) of
                    (Continue, h) \<Rightarrow> scan_xobjects ct st h rest | r \<Rightarrow> r)"
  using assms verdict_flag_set[of ct st rest]
  by (auto simp: check_image_def pixel_analysis_def Let_def verdict_def)

lemma scan_decode_failure:
  assumes "decoded obj = DecodeFails e"
  shows "verdict (scan_xobjects ct st hc (pre @ ImageXObject obj # rest))
       = verdict (scan_xobjects ct st hc (pre @ ImageXObject (obj\<lparr>decoded := NoData\<rparr>) # rest))"
proof (induction pre arbitrary: hc)
  case Nil
  have a: "scan_xobjects ct st hc (ImageXObject obj # rest)
        = (case check_image ct st hc obj of
                    (Continue, h) \<Rightarrow> scan_xobjects ct st h rest | r \<Rightarrow> r)"
    by (auto split: prod.splits control.splits)
  have b: "scan_xobjects ct st hc (ImageXObject (obj\<lparr>decoded := NoData\<rparr>) # rest)
        = (case check_image ct st hc (obj\<lparr>decoded := NoData\<rparr>) of
                    (Continue, h) \<Rightarrow> scan_xobjects ct st h rest | r \<Rightarrow> r)"
    by (auto split: prod.splits control.splits)
  show ?case
    using check_image_decode_failure[OF assms, where ct = ct and st = st and hc = hc and rest = rest]
    by (simp only: a b append_Nil)
next
  case (Cons x pre)
  show ?case
  proof (cases x)
    case (Unreadable e)
    then show ?thesis by simp
  next
    case NotImage
    with Cons.IH show ?thesis by simp
  next
    case (ImageXObject o2)
    show ?thesis using Cons.IH ImageXObject
      by (auto split: prod.splits control.splits)
  qed
qed

lemma is_color_page_verdict:
  "scan_content rnd page \<noteq> Return True \<Longrightarrow> resources page = XObjects xs \<Longrightarrow>
     is_color_page rnd page ct st = Inr (verdict (scan_xobjects ct st False xs))"
  using is_color_page_images[of rnd page xs ct st]
  by (auto simp: verdict_def split: prod.splits control.splits)


text \<open>
  C8, as stated: every failure on an image would be absorbed as no signal, with the scan
  of the page going on. On the first page below the first entry of the XObject
  dictionary cannot be read and the second is an image of red pixels: the exception is
  caught by the handler of line 159, outside the loop, the red image is never looked at
  and the page is classified \<open>False\<close>; the page with the red image alone is classified
  \<open>True\<close>.
\<close>

theorem unreadable_entry_stops_scan:
  "is_color_page exact
       (image_page NoContents [Unreadable PdfReadError, ImageXObject red_image]) 3 (1 / 1000)
     = Inr False
   \<and> is_color_page exact (image_page NoContents [ImageXObject red_image]) 3 (1 / 1000)
     = Inr True"
  by (simp add: is_color_page_def is_color_page_try_def image_page_no_vector
        scan_resources_def image_page_fields example_images)

text \<open>
  C8, amended: \<open>is_color_page\<close> returns a boolean for every page and thresholds, and
  no exception leaves it. A failure while reading the content stream is absorbed: the
  verdict is that of the same page without a content stream. A failure while decoding the
  pixels of an image is absorbed and the scan goes on with the next image: the verdict is
  that of the same page with an empty payload for that image.
\<close>

theorem is_color_page_total_and_absorbing:
  "(\<exists>b. is_color_page rnd page ct st = Inr b)
   \<and> (content_data (contents page) = Inl e \<longrightarrow>
        is_color_page rnd page ct st = is_color_page rnd (page\<lparr>contents := NoContents\<rparr>) ct st)
   \<and> (resources page = XObjects (pre @ ImageXObject obj # rest) \<and> decoded obj = DecodeFails e' \<longrightarrow>
        is_color_page rnd page ct st =
        is_color_page rnd
          (page\<lparr>resources := XObjects (pre @ ImageXObject (obj\<lparr>decoded := NoData\<rparr>) # rest)\<rparr>)
          ct st)"
proof (intro conjI impI)
  show "\<exists>b. is_color_page rnd page ct st = Inr b"
    by (auto simp: is_color_page_def split: prod.splits control.splits)
next
  assume f: "content_data (contents page) = Inl e"
  have "scan_resources ct st False page = scan_resources ct st False (page\<lparr>contents := NoContents\<rparr>)"
    by (simp add: scan_resources_def)
  with scan_content_failure[OF f, of rnd] scan_content_no_contents[of rnd page]
  show "is_color_page rnd page ct st = is_color_page rnd (page\<lparr>contents := NoContents\<rparr>) ct st"
    by (intro is_color_page_resources) auto
next
  assume a: "resources page = XObjects (pre @ ImageXObject obj # rest) \<and> decoded obj = DecodeFails e'"
  let ?q = "page\<lparr>resources := XObjects (pre @ ImageXObject (obj\<lparr>decoded := NoData\<rparr>) # rest)\<rparr>"
  have sc: "scan_content rnd ?q = scan_content rnd page" by (simp add: scan_content_def)
  show "is_color_page rnd page ct st = is_color_page rnd ?q ct st"
  proof (cases "scan_content rnd page = Return True")
    case True
    with sc show ?thesis by (simp add: is_color_page_vector)
  next
    case False
    with sc have f2: "scan_content rnd ?q \<noteq> Return True" by simp
    have r2: "resources ?q = XObjects (pre @ ImageXObject (obj\<lparr>decoded := NoData\<rparr>) # rest)" by simp
    from a have d: "decoded obj = DecodeFails e'" and r1: "resources page = XObjects (pre @ ImageXObject obj # rest)" by simp_all
    show ?thesis
      using is_color_page_verdict[OF False r1, of ct st] is_color_page_verdict[OF f2 r2, of ct st]
            scan_decode_failure[OF d, of ct st False pre rest]
      by simp
  qed
qed

theorem is_color_page_total_and_absorbing_witness:
  "content_data (contents (image_page (ContentStream (Inl PdfReadError)) [ImageXObject red_image]))
     = Inl PdfReadError
   \<and> is_color_page exact
         (image_page (ContentStream (Inl PdfReadError)) [ImageXObject red_image]) 3 (1 / 1000)
     = is_color_page exact
         ((image_page (ContentStream (Inl PdfReadError)) [ImageXObject red_image])
            \<lparr>contents := NoContents\<rparr>) 3 (1 / 1000)
   \<and> decoded broken_image = DecodeFails ImageError
   \<and> is_color_page exact
         (image_page NoContents [ImageXObject broken_image, ImageXObject red_image])
         3 (1 / 1000)
     = is_color_page exact
         ((image_page NoContents [ImageXObject broken_image, ImageXObject red_image])
            \<lparr>resources :=
               XObjects [ImageXObject (broken_image\<lparr>decoded := NoData\<rparr>),
                         ImageXObject red_image]\<rparr>) 3 (1 / 1000)"
proof -
  let ?a = "image_page (ContentStream (Inl PdfReadError)) [ImageXObject red_image]"
  let ?b = "image_page NoContents [ImageXObject broken_image, ImageXObject red_image]"
  have a: "content_data (contents ?a) = Inl PdfReadError"
    by (simp add: image_page_fields)
  have b: "resources ?b = XObjects ([] @ ImageXObject broken_image # [ImageXObject red_image])
      \<and> decoded broken_image = DecodeFails ImageError"
    by (simp add: image_page_fields broken_image_def)
  from is_color_page_total_and_absorbing
         [where page = ?a and rnd = exact and ct = 3 and st = "1 / 1000" and e = PdfReadError]
       a
  have 1: "is_color_page exact ?a 3 (1 / 1000)
      = is_color_page exact (?a\<lparr>contents := NoContents\<rparr>) 3 (1 / 1000)"
    by blast
  from is_color_page_total_and_absorbing
         [where page = ?b and rnd = exact and ct = 3 and st = "1 / 1000" and pre = "[]"
            and obj = broken_image and rest = "[ImageXObject red_image]" and e' = ImageError]
       b
  have 2: "is_color_page exact ?b 3 (1 / 1000)
      = is_color_page exact
          (?b\<lparr>resources := XObjects ([] @ ImageXObject (broken_image\<lparr>decoded := NoData\<rparr>)
                                      # [ImageXObject red_image])\<rparr>) 3 (1 / 1000)"
    by blast
  from a b 1 2 show ?thesis by simp
qed

section \<open>Properties of the content-stream scan\<close>

lemma first_down_Some:
  "first_down k lo d = Some r \<Longrightarrow> \<exists>n. lo \<le> n \<and> n \<le> lo + d \<and> k n = Some r"
proof (induction d)
  case 0
  then show ?case by auto
next
  case (Suc d)
  show ?case
  proof (cases "k (lo + Suc d)")
    case None
    with Suc.prems have "first_down k lo d = Some r" by simp
    from Suc.IH[OF this] show ?thesis by auto
  next
    case (Some r')
    with Suc.prems have "k (lo + Suc d) = Some r" by simp
    then show ?thesis by (intro exI[of _ "lo + Suc d"]) simp
  qed
qed

lemma match_WordBoundary:
  "match_at (WordBoundary # as) txt pos cs = Some r \<Longrightarrow> match_at as txt pos cs = Some r"
  by (simp split: if_splits)

lemma match_One:
  "match_at (One c # as) txt pos cs = Some r \<Longrightarrow> match_at as txt (pos + 1) cs = Some r"
  by (simp split: if_splits)

lemma match_Star:
  "match_at (Star c # as) txt pos cs = Some r \<Longrightarrow>
     \<exists>n. n \<le> run c txt pos \<and> match_at as txt (pos + n) cs = Some r"
  using first_down_Some[of "\<lambda>n. match_at as txt (pos + n) cs" 0 "run c txt pos" r] by auto

lemma match_Opt:
  "match_at (Opt c # as) txt pos cs = Some r \<Longrightarrow>
     \<exists>n. n \<le> 1 \<and> n \<le> run c txt pos \<and> match_at as txt (pos + n) cs = Some r"
  using first_down_Some[of "\<lambda>n. match_at as txt (pos + n) cs" 0 "min 1 (run c txt pos)" r]
  by auto

lemma match_Plus:
  "match_at (Plus c # as) txt pos cs = Some r \<Longrightarrow>
     \<exists>n. 1 \<le> n \<and> n \<le> run c txt pos \<and> match_at as txt (pos + n) cs = Some r"
  using first_down_Some[of "\<lambda>n. match_at as txt (pos + n) cs" 1 "run c txt pos - 1" r]
  by (auto split: if_splits)

lemma take_run:
  assumes "n \<le> run c txt pos"
  shows "list_all (in_class c) (take n (drop pos txt))" and "length (take n (drop pos txt)) = n"
proof -
  let ?xs = "drop pos txt"
  let ?tw = "takeWhile (in_class c) ?xs"
  from assms have n: "n \<le> length ?tw" by (simp add: run_def)
  have "take n ?xs = take n (?tw @ dropWhile (in_class c) ?xs)" by simp
  also have "\<dots> = take n ?tw" using n by (simp del: takeWhile_dropWhile_id)
  finally have eq: "take n ?xs = take n ?tw" .
  have "\<forall>x\<in>set (take n ?tw). in_class c x"
    by (meson in_set_takeD set_takeWhileD)
  then show "list_all (in_class c) (take n ?xs)" by (simp add: eq list_all_iff)
  show "length (take n ?xs) = n" using n by (simp add: eq)
qed

lemma digit_not_dot: "is_digit x \<Longrightarrow> x \<noteq> CHR ''.''"
  by (auto simp: is_digit_def code_def)

lemma float_syntax_parts:
  assumes a: "list_all is_digit a" and b: "list_all (\<lambda>x. x = CHR ''.'') b" "length b \<le> 1"
    and c: "list_all is_digit c" "c \<noteq> []"
  shows "float_syntax (a @ b @ c)"
proof -
  have fa: "filter (\<lambda>x. x = CHR ''.'') a = []"
    using a digit_not_dot by (auto simp: filter_empty_conv list_all_iff)
  have fc: "filter (\<lambda>x. x = CHR ''.'') c = []"
    using c digit_not_dot by (auto simp: filter_empty_conv list_all_iff)
  have "length (filter (\<lambda>x. x = CHR ''.'') b) \<le> length b" by (rule length_filter_le)
  with b(2) have fb: "length (filter (\<lambda>x. x = CHR ''.'') b) \<le> 1" by linarith
  from c obtain x where "x \<in> set c" "is_digit x"
    by (cases c) (auto simp: list_all_iff)
  then have ex: "list_ex is_digit (a @ b @ c)" by (auto simp: list_ex_iff)
  have all: "list_all (\<lambda>x. is_digit x \<or> x = CHR ''.'') (a @ b @ c)"
    using a b(1) c(1) by (auto simp: list_all_iff)
  show ?thesis using all ex fa fb fc by (simp add: float_syntax_def)
qed

lemma number_group_match:
  assumes "match_at (number_group @ rest) txt pos cs = Some r"
  shows "\<exists>pos' g. float_syntax g \<and> match_at rest txt pos' (fst cs @ [g], pos) = Some r"
proof -
  from assms have m1: "match_at (Star Digit # Opt (Lit (CHR ''.'')) # Plus Digit # GroupClose # rest)
          txt pos (fst cs, pos) = Some r"
    by (simp add: number_group_def)
  from match_Star[OF m1] obtain n1 where n1: "n1 \<le> run Digit txt pos"
    and m2: "match_at (Opt (Lit (CHR ''.'')) # Plus Digit # GroupClose # rest)
          txt (pos + n1) (fst cs, pos) = Some r" by blast
  from match_Opt[OF m2] obtain n2 where n2: "n2 \<le> 1" "n2 \<le> run (Lit (CHR ''.'')) txt (pos + n1)"
    and m3: "match_at (Plus Digit # GroupClose # rest) txt (pos + n1 + n2) (fst cs, pos) = Some r"
    by blast
  from match_Plus[OF m3] obtain n3 where n3: "1 \<le> n3" "n3 \<le> run Digit txt (pos + n1 + n2)"
    and m4: "match_at (GroupClose # rest) txt (pos + n1 + n2 + n3) (fst cs, pos) = Some r"
    by blast
  let ?g = "take (n1 + n2 + n3) (drop pos txt)"
  from m4 have m5: "match_at rest txt (pos + n1 + n2 + n3) (fst cs @ [?g], pos) = Some r"
    by (simp add: add.assoc)
  let ?a = "take n1 (drop pos txt)"
  let ?b = "take n2 (drop (pos + n1) txt)"
  let ?c = "take n3 (drop (pos + n1 + n2) txt)"
  have split: "?g = ?a @ ?b @ ?c"
    by (simp add: take_add add.commute add.left_commute)
  have a: "list_all is_digit ?a" using take_run(1)[OF n1] by (simp add: list_all_iff)
  have b: "list_all (\<lambda>x. x = CHR ''.'') ?b" using take_run(1)[OF n2(2)] by (simp add: list_all_iff)
  have bl: "length ?b \<le> 1" using take_run(2)[OF n2(2)] n2(1) by simp
  have c: "list_all is_digit ?c" using take_run(1)[OF n3(2)] by (simp add: list_all_iff)
  have cl: "?c \<noteq> []" using take_run(2)[OF n3(2)] n3(1) by auto
  from float_syntax_parts[OF a b bl c cl] have "float_syntax ?g" by (simp only: split)
  with m5 show ?thesis by blast
qed

lemma literal_match:
  "match_at (map (\<lambda>c. One (Lit c)) operator) txt pos cs = Some (e, gs) \<Longrightarrow> gs = fst cs"
proof (induction operator arbitrary: pos)
  case Nil
  then show ?case by simp
next
  case (Cons c operator)
  from Cons.prems have "match_at (One (Lit c) # map (\<lambda>c. One (Lit c)) operator) txt pos cs = Some (e, gs)"
    by simp
  from match_One[OF this] Cons.IH show ?case by blast
qed

lemma rgb_pattern_match:
  assumes "match_at (rgb_pattern operator) txt pos cs = Some (e, gs)"
  shows "\<exists>a b c. gs = fst cs @ [a, b, c] \<and> float_syntax a \<and> float_syntax b \<and> float_syntax c"
proof -
  let ?lit = "map (\<lambda>c. One (Lit c)) operator"
  from assms have "match_at (number_group @ (Plus Space # number_group @ (Plus Space #
       number_group @ (Plus Space # ?lit)))) txt pos cs = Some (e, gs)"
    by (simp add: rgb_pattern_def split: if_splits)
  from number_group_match[OF this] obtain p1 a where a: "float_syntax a"
    and m1: "match_at (Plus Space # number_group @ (Plus Space #
       number_group @ (Plus Space # ?lit))) txt p1 (fst cs @ [a], pos) = Some (e, gs)"
    by blast
  from match_Plus[OF m1] obtain k1 where
    "match_at (number_group @ (Plus Space # number_group @ (Plus Space # ?lit))) txt (p1 + k1)
       (fst cs @ [a], pos) = Some (e, gs)" by blast
  from number_group_match[OF this] obtain p2 b where b: "float_syntax b"
    and m2: "match_at (Plus Space # number_group @ (Plus Space # ?lit)) txt p2
       (fst cs @ [a] @ [b], p1 + k1) = Some (e, gs)"
    by auto
  from match_Plus[OF m2] obtain k2 where
    "match_at (number_group @ (Plus Space # ?lit)) txt (p2 + k2)
       (fst cs @ [a] @ [b], p1 + k1) = Some (e, gs)" by blast
  from number_group_match[OF this] obtain p3 c where c: "float_syntax c"
    and m3: "match_at (Plus Space # ?lit) txt p3
       (fst cs @ [a] @ [b] @ [c], p2 + k2) = Some (e, gs)"
    by auto
  from match_Plus[OF m3] obtain k3 where
    "match_at ?lit txt (p3 + k3) (fst cs @ [a] @ [b] @ [c], p2 + k2) = Some (e, gs)" by blast
  from literal_match[OF this] have "gs = fst cs @ [a, b, c]" by simp
  with a b c show ?thesis by blast
qed

lemma findall_from_matches:
  "gs \<in> set (findall_from p d pos) \<Longrightarrow>
     \<exists>pos' e. match_at p d pos' ([], pos') = Some (e, gs)"
proof (induction p d pos rule: findall_from.induct)
  case (1 p d pos)
  show ?case
  proof (cases "length d < pos")
    case True
    with "1.prems" show ?thesis by (simp add: findall_from.simps[of p d pos])
  next
    case False
    show ?thesis
    proof (cases "match_at p d pos ([], pos)")
      case None
      with False "1.prems" have "gs \<in> set (findall_from p d (pos + 1))"
        by (simp add: findall_from.simps[of p d pos])
      from "1.IH"(1)[OF False None this] show ?thesis .
    next
      case (Some r)
      obtain e gs' where r: "r = (e, gs')" by (cases r)
      from False Some r "1.prems"
      have "gs = gs' \<or> gs \<in> set (findall_from p d (if pos < e then e else pos + 1))"
        by (simp add: findall_from.simps[of p d pos])
      then show ?thesis
      proof
        assume "gs = gs'"
        with Some r show ?thesis by blast
      next
        assume "gs \<in> set (findall_from p d (if pos < e then e else pos + 1))"
        from "1.IH"(2)[OF False Some r[symmetric] this] show ?thesis .
      qed
    qed
  qed
qed

lemma findall_rgb:
  assumes "m \<in> set (findall (rgb_pattern operator) d)"
  shows "\<exists>a b c. m = Tuple [a, b, c] \<and> float_syntax a \<and> float_syntax b \<and> float_syntax c"
proof -
  from assms obtain gs where gs: "gs \<in> set (findall_from (rgb_pattern operator) d 0)"
    and m: "m = (case gs of [g] \<Rightarrow> Str g | _ \<Rightarrow> Tuple gs)"
    by (auto simp: findall_def)
  from findall_from_matches[OF gs] obtain pos' e where
    "match_at (rgb_pattern operator) d pos' ([], pos') = Some (e, gs)" by blast
  from rgb_pattern_match[OF this] obtain a b c where
    "gs = [a, b, c]" "float_syntax a" "float_syntax b" "float_syntax c" by auto
  with m show ?thesis by auto
qed

lemma py_float_valid: "float_syntax s \<Longrightarrow> py_float rnd s = Inr (rnd (decimal_value s))"
  by (simp add: py_float_def)

lemma check_matches_triples:
  assumes "\<forall>m\<in>set ms. \<exists>a b c. m = Tuple [a, b, c] \<and> float_syntax a \<and> float_syntax b
             \<and> float_syntax c"
  shows "check_matches rnd ms =
           Inr (\<exists>a b c. Tuple [a, b, c] \<in> set ms
                  \<and> \<not> (py_float rnd a = py_float rnd b \<and> py_float rnd b = py_float rnd c))"
  using assms
proof (induction ms)
  case Nil
  then show ?case by simp
next
  case (Cons m ms)
  from Cons.prems obtain a b c where m: "m = Tuple [a, b, c]"
    and v: "float_syntax a" "float_syntax b" "float_syntax c" by auto
  from Cons.prems have "\<forall>m\<in>set ms. \<exists>a b c. m = Tuple [a, b, c] \<and> float_syntax a
       \<and> float_syntax b \<and> float_syntax c" by simp
  note ih = Cons.IH[OF this]
  show ?case
  proof (cases "rnd (decimal_value a) = rnd (decimal_value b)
                 \<and> rnd (decimal_value b) = rnd (decimal_value c)")
    case True
    then have "check_matches rnd (m # ms) = check_matches rnd ms"
      using v by (simp add: m and_then_def py_float_valid)
    moreover have "py_float rnd a = py_float rnd b \<and> py_float rnd b = py_float rnd c"
      using True v by (simp add: py_float_valid)
    ultimately show ?thesis using ih m by auto
  next
    case False
    then have "check_matches rnd (m # ms) = Inr True"
      using v by (simp add: m and_then_def py_float_valid)
    moreover have "\<not> (py_float rnd a = py_float rnd b \<and> py_float rnd b = py_float rnd c)"
      using False v by (simp add: py_float_valid)
    ultimately show ?thesis using m by auto
  qed
qed

lemma check_matches_rgb:
  "check_matches rnd (findall (rgb_pattern operator) d) =
     Inr (\<exists>a b c. Tuple [a, b, c] \<in> set (findall (rgb_pattern operator) d)
            \<and> \<not> (py_float rnd a = py_float rnd b \<and> py_float rnd b = py_float rnd c))"
  by (rule check_matches_triples) (auto dest: findall_rgb)

lemma scan_patterns_rgb:
  assumes "Tuple [r, g, b] \<in> set (findall (rgb_pattern ''rg'') d)
             \<union> set (findall (rgb_pattern ''RG'') d)"
    and "\<not> (py_float rnd r = py_float rnd g \<and> py_float rnd g = py_float rnd b)"
  shows "scan_patterns rnd d color_patterns = Inr True"
proof (cases "check_matches rnd (findall (rgb_pattern ''rg'') d) = Inr True")
  case True
  then show ?thesis by (simp add: color_patterns_def)
next
  case False
  then have f: "check_matches rnd (findall (rgb_pattern ''rg'') d) = Inr False"
    by (simp add: check_matches_rgb)
  then have "Tuple [r, g, b] \<notin> set (findall (rgb_pattern ''rg'') d)"
    using assms(2) by (auto simp: check_matches_rgb)
  with assms have "check_matches rnd (findall (rgb_pattern ''RG'') d) = Inr True"
    by (auto simp: check_matches_rgb)
  with f show ?thesis by (simp add: color_patterns_def)
qed


lemma dotted_fill_matches:
  "findall (rgb_pattern ''rg'') dotted_fill = []"
  "findall (rgb_pattern ''RG'') dotted_fill = []"
  "findall (gray_pattern ''g'') dotted_fill = []"
  "findall (gray_pattern ''G'') dotted_fill = []"
  by code_simp+

lemma dotted_operands:
  "float_syntax ''1.''" "float_syntax ''0.''"
  "digits_value ''1'' = 1" "digits_value ''0'' = 0"
  by code_simp+

lemma dotted_values: "py_float exact ''1.'' = Inr 1" "py_float exact ''0.'' = Inr 0"
  by (simp_all add: py_float_def dotted_operands decimal_value_def exact_def is_digit_def
        code_def)

lemma array_references_not_read: "content_data (ContentArray [OtherItem, OtherItem]) = Inr []"
  by simp

text \<open>
  C2, as stated: every page whose content stream holds a triple \<^verbatim>\<open>r g b rg\<close> with
  components not all equal would be classified \<open>True\<close>. The content stream of the page
  below is the fill \<^verbatim>\<open>1. 0. 0. rg\<close>, red, whose operands are the numbers 1, 0 and 0
  written with a final dot, as PDF and \<^verbatim>\<open>float\<close> allow: the operand pattern of the
  scanner wants a digit after the dot, no pattern matches, and the page is classified
  \<open>False\<close>.
\<close>

theorem dotted_operands_not_detected:
  "has_extract_text dotted_page
   \<and> content_data (contents dotted_page)
       = Inr (''1.'' @ '' '' @ ''0.'' @ '' '' @ ''0.'' @ '' '' @ ''rg'')
   \<and> py_float exact ''1.'' = Inr 1
   \<and> py_float exact ''0.'' = Inr 0
   \<and> is_color_page exact dotted_page 3 (1 / 1000) = Inr False"
proof -
  have "scan_patterns exact dotted_fill color_patterns = Inr False"
    by (simp add: color_patterns_def dotted_fill_matches)
  then have "is_color_page exact dotted_page 3 (1 / 1000) = Inr False"
    by (simp add: is_color_page_def is_color_page_try_def scan_content_def and_then_def
          scan_resources_def dotted_page_def image_page_fields)
  then show ?thesis
    by (simp add: dotted_values dotted_page_def image_page_fields dotted_fill_def)
qed

text \<open>
  C2, amended: when the page has \<^verbatim>\<open>extract_text\<close> and the text that the code reads
  from its content stream (the data of a stream object, or of the items of an array that
  have \<^verbatim>\<open>get_data\<close>) holds a triple that \<^verbatim>\<open>re.findall\<close> finds with the scanner's
  pattern for \<^verbatim>\<open>r g b rg\<close> or \<^verbatim>\<open>r g b RG\<close>, whose three operands are not all equal
  as \<^verbatim>\<open>float\<close> values, \<open>is_color_page\<close> returns \<open>True\<close>, whatever the other
  matches, the resources and the images of the page are.
\<close>

theorem rgb_triple_returns_true:
  assumes "has_extract_text page"
    and "content_data (contents page) = Inr d"
    and "Tuple [r, g, b] \<in> set (findall (rgb_pattern ''rg'') d)
             \<union> set (findall (rgb_pattern ''RG'') d)"
    and "\<not> (py_float rnd r = py_float rnd g \<and> py_float rnd g = py_float rnd b)"
  shows "is_color_page rnd page color_threshold sample_threshold = Inr True"
proof -
  from assms(2) have "contents page \<noteq> NoContents" by auto
  with assms(1,2) scan_patterns_rgb[OF assms(3,4)]
  have "scan_content rnd page = Return True"
    by (simp add: scan_content_def and_then_def)
  then show ?thesis by (rule is_color_page_vector)
qed

lemma two_fills_matches:
  "findall (rgb_pattern ''rg'') two_fills
     = [Tuple [''0.5'', ''0.5'', ''0.5''], Tuple [''1'', ''0'', ''0'']]"
  by code_simp

lemma float_examples:
  "float_syntax ''1''" "float_syntax ''0''"
  "digits_value ''1'' = 1" "digits_value ''0'' = 0"
  by code_simp+

lemma float_values: "py_float exact ''1'' = Inr 1" "py_float exact ''0'' = Inr 0"
  by (simp_all add: py_float_def float_examples decimal_value_def exact_def is_digit_def
        code_def)

theorem rgb_triple_returns_true_witness:
  "has_extract_text (image_page (ContentStream (Inr two_fills)) [ImageXObject plain_gray_image])
   \<and> content_data
        (contents (image_page (ContentStream (Inr two_fills)) [ImageXObject plain_gray_image]))
       = Inr two_fills
   \<and> Tuple [''1'', ''0'', ''0''] \<in> set (findall (rgb_pattern ''rg'') two_fills)
   \<and> py_float exact ''1'' \<noteq> py_float exact ''0''
   \<and> is_color_page exact
        (image_page (ContentStream (Inr two_fills)) [ImageXObject plain_gray_image])
        3 (1 / 1000)
       = Inr True"
proof -
  let ?p = "image_page (ContentStream (Inr two_fills)) [ImageXObject plain_gray_image]"
  have h: "has_extract_text ?p" by (simp add: image_page_fields)
  have c: "content_data (contents ?p) = Inr two_fills" by (simp add: image_page_fields)
  have m: "Tuple [''1'', ''0'', ''0''] \<in> set (findall (rgb_pattern ''rg'') two_fills)
             \<union> set (findall (rgb_pattern ''RG'') two_fills)"
    by (simp add: two_fills_matches)
  have ne: "\<not> (py_float exact ''1'' = py_float exact ''0''
              \<and> py_float exact ''0'' = py_float exact ''0'')"
    by (simp add: float_values)
  from rgb_triple_returns_true[OF h c m ne, of 3 "1 / 1000"] h c m ne
  show ?thesis by (simp add: two_fills_matches)
qed

end
